theory Spec2Isabelle
  imports Main
begin

section \<open>Name validation (crl/config.py, crl/helpers.py)\<close>

text \<open>
  \<^verbatim>\<open>validate_name\<close> compiles \<^verbatim>\<open>USER_ALLOWED_REGEX = "^[A-Za-z0-9]+$$"\<close> and applies
  \<^verbatim>\<open>re.match\<close>. The compiled pattern is the operator sequence below, named after the
  opcodes of Python's regular expression compiler: an anchor at the beginning, a greedy
  repetition (one or more) of a character class made of ranges, and two end anchors.
  A Python \<^verbatim>\<open>str\<close> is modelled as a \<open>string\<close>; every character outside ASCII falls outside
  the three ranges.
\<close>

datatype sre_op =
    AT_BEGINNING
  | AT_END
  | MAX_REPEAT_1 "(char \<times> char) list"

definition in_range :: "char \<times> char \<Rightarrow> char \<Rightarrow> bool" where
  "in_range r c = ((of_char (fst r) :: nat) \<le> of_char c \<and> (of_char c :: nat) \<le> of_char (snd r))"

definition in_class :: "(char \<times> char) list \<Rightarrow> char \<Rightarrow> bool" where
  "in_class cls c = list_ex (\<lambda>r. in_range r c) cls"

definition newline :: char where
  "newline = CHR 0x0A"

text \<open>
  The matcher runs from a position in the subject (the number of characters consumed so
  far, and the characters that remain). Without the MULTILINE flag \<^verbatim>\<open>^\<close> holds at position
  0 only, and \<^verbatim>\<open>$\<close> holds at the end of the subject and also just before a newline that is
  the last character of the subject. Both anchors consume nothing. The repetition takes
  one character of the class and then either goes on repeating or hands over to the rest
  of the pattern; the result is whether any of these choices succeeds, which is what
  backtracking decides. \<^verbatim>\<open>re.match\<close> does not require the pattern to reach the end of the
  subject.
\<close>

fun sre_match :: "sre_op list \<Rightarrow> nat \<Rightarrow> string \<Rightarrow> bool" where
  "sre_match [] pos rest = True"
| "sre_match (AT_BEGINNING # ops) pos rest = (pos = 0 \<and> sre_match ops pos rest)"
| "sre_match (AT_END # ops) pos rest =
     ((rest = [] \<or> rest = [newline]) \<and> sre_match ops pos rest)"
| "sre_match (MAX_REPEAT_1 cls # ops) pos [] = False"
| "sre_match (MAX_REPEAT_1 cls # ops) pos (c # cs) =
     (in_class cls c \<and>
      (sre_match (MAX_REPEAT_1 cls # ops) (Suc pos) cs \<or> sre_match ops (Suc pos) cs))"

definition re_match :: "sre_op list \<Rightarrow> string \<Rightarrow> bool" where
  "re_match pattern subject = sre_match pattern 0 subject"

definition alnum_class :: "(char \<times> char) list" where
  "alnum_class = [(CHR ''A'', CHR ''Z''), (CHR ''a'', CHR ''z''), (CHR ''0'', CHR ''9'')]"

definition USER_ALLOWED_REGEX :: "sre_op list" where
  "USER_ALLOWED_REGEX = [AT_BEGINNING, MAX_REPEAT_1 alnum_class, AT_END, AT_END]"

definition USER_MAX_LEN :: nat where
  "USER_MAX_LEN = 32"

definition USER_MIN_LEN :: nat where
  "USER_MIN_LEN = 4"

definition USER_CASE_SENSITIVE :: bool where
  "USER_CASE_SENSITIVE = False"

text \<open>
  \<^verbatim>\<open>str.lower\<close>, on the characters that can reach it: an ASCII capital becomes the
  matching small letter and every other ASCII character stays.
\<close>

definition lower_char :: "char \<Rightarrow> char" where
  "lower_char c =
     (if (65::nat) \<le> of_char c \<and> (of_char c :: nat) \<le> 90
      then char_of ((of_char c :: nat) + 32) else c)"

definition lower :: "string \<Rightarrow> string" where
  "lower s = map lower_char s"

datatype error = ValueError

definition validate_name :: "string \<Rightarrow> error + string" where
  "validate_name name =
     (if \<not> re_match USER_ALLOWED_REGEX name \<or> length name > USER_MAX_LEN
         \<or> length name < USER_MIN_LEN
      then Inl ValueError
      else Inr (if USER_CASE_SENSITIVE then name else lower name))"


section \<open>The world lifecycle daemon (crld/crld.py)\<close>

subsection \<open>Enumerations and the daemon's state\<close>

datatype WorldState = Notfound | Checking | Creating | Stopped | Starting | Running | Stopping

datatype WorldSignal = sig_create | sig_start | sig_stop | sig_fail | sig_check | sig_up | sig_down

datatype WorldHealth = health_up | health_degraded | health_down

type_synonym path = "string list"

type_synonym filesystem = "path \<rightharpoonup> string"

text \<open>
  The records the daemon hands to its logger: the line \<^verbatim>\<open>set_fsm_state\<close> writes for every
  pass through the FSM (event, user, old state, new state, signal), the warning of
  \<^verbatim>\<open>check_fsm_integrity\<close> and the exception report of \<^verbatim>\<open>call_fsm_blocking\<close>. The
  \<^verbatim>\<open>log.debug\<close> calls are left out.
\<close>

datatype log_record =
    Info_transition string string WorldState WorldState WorldSignal
  | Warning_no_config string string
  | Error_exception string

text \<open>
  The module's globals (\<^verbatim>\<open>running_configdir\<close>, \<^verbatim>\<open>world_state\<close>, the two queues), the
  logger's output, and what the daemon reaches outside the process: the files below the
  configuration directory (a path is the list of its components, a regular file maps to
  its contents) and the container orchestrator, whose state is opaque. An item of a queue
  is the pair \<open>(event, user)\<close>; the wait handle queued with it is what the requester
  suspends on.
\<close>

record 'o daemon =
  running_configdir :: string
  world_state :: "string \<times> string \<rightharpoonup> WorldState"
  create_queue :: "(string \<times> string) list"
  stop_queue :: "(string \<times> string) list"
  log :: "log_record list"
  files :: filesystem
  orchestrator :: 'o

text \<open>
  The blocking commands and the stack inspection come from modules that shell out to the
  orchestrator; they are parameters of the model. A command is called with the event, the
  list of worlds and the configuration directory; it returns a value, of which only the
  truth value is used, or raises an exception, and it may change the files and the
  orchestrator. \<^verbatim>\<open>inspect\<close> takes the world's path and stack name and returns a dictionary
  from service short-name to service record, empty when the stack cannot be inspected;
  of a service record only the key \<^verbatim>\<open>up\<close> is read, which may be absent.
\<close>

datatype blocking_op = cmd_create | cmd_start | cmd_stop | cmd_delete

datatype op_outcome = Returned bool | Raised string

record service =
  up :: "bool option"

record 'o env =
  blocking :: "blocking_op \<Rightarrow> string \<Rightarrow> string list \<Rightarrow> string \<Rightarrow> filesystem \<times> 'o
                \<Rightarrow> op_outcome \<times> filesystem \<times> 'o"
  inspect :: "path \<Rightarrow> string \<Rightarrow> filesystem \<times> 'o \<Rightarrow> (string \<times> service) list"

subsection \<open>State access\<close>

text \<open>
  \<^verbatim>\<open>get_fsm_state\<close> reads with \<^verbatim>\<open>dict.setdefault\<close>: a pair seen for the first time is
  entered as \<open>notfound\<close>.
\<close>

definition get_fsm_state :: "string \<Rightarrow> string \<Rightarrow> 'o daemon \<Rightarrow> WorldState \<times> 'o daemon" where
  "get_fsm_state event user st =
     (case world_state st (event, user) of
        Some s \<Rightarrow> (s, st)
      | None \<Rightarrow> (Notfound, st\<lparr>world_state := (world_state st)((event, user) \<mapsto> Notfound)\<rparr>))"

definition set_fsm_state ::
  "string \<Rightarrow> string \<Rightarrow> WorldState \<Rightarrow> WorldSignal \<Rightarrow> 'o daemon \<Rightarrow> 'o daemon" where
  "set_fsm_state event user new_state signal st =
     (let (old_state, st1) = get_fsm_state event user st in
      st1\<lparr>world_state := (world_state st1)((event, user) \<mapsto> new_state),
          log := log st1 @ [Info_transition event user old_state new_state signal]\<rparr>)"

definition get_world_path :: "string \<Rightarrow> string \<Rightarrow> 'o daemon \<Rightarrow> path" where
  "get_world_path event user st = [running_configdir st, ''Events'', event, user]"

definition get_config_path :: "string \<Rightarrow> string \<Rightarrow> 'o daemon \<Rightarrow> path" where
  "get_config_path event user st =
     get_world_path event user st @ [''peer'', ''peer_'' @ user @ ''.conf'']"

definition path_exists :: "path \<Rightarrow> 'o daemon \<Rightarrow> bool" where
  "path_exists p st = (files st p \<noteq> None)"

text \<open>\<^verbatim>\<open>get_user_config\<close>: the file's contents, \<open>None\<close> on \<^verbatim>\<open>FileNotFoundError\<close>.\<close>

definition get_user_config :: "string \<Rightarrow> string \<Rightarrow> 'o daemon \<Rightarrow> string option" where
  "get_user_config event user st = files st (get_config_path event user st)"

subsection \<open>Health of a world\<close>

definition service_get_up :: "service \<Rightarrow> bool" where
  "service_get_up s = (case up s of Some b \<Rightarrow> b | None \<Rightarrow> False)"

definition determine_world_health :: "(string \<times> service) list \<Rightarrow> WorldHealth option" where
  "determine_world_health world_info =
     (let services_status =
            map (\<lambda>(hostname, s). service_get_up s)
              (filter (\<lambda>(hostname, s). hostname \<noteq> ''wireguard'') world_info)
      in if services_status = [] then Some health_down
         else if list_all (\<lambda>b. b) services_status then Some health_up
         else if list_ex (\<lambda>b. b) services_status then Some health_degraded
         else if \<not> list_ex (\<lambda>b. b) services_status then Some health_down
         else None)"

definition get_health :: "'o env \<Rightarrow> string \<Rightarrow> string \<Rightarrow> 'o daemon \<Rightarrow> WorldHealth option" where
  "get_health env event user st =
     determine_world_health
       (inspect env (get_world_path event user st) (''crl-'' @ event @ ''-'' @ user)
          (files st, orchestrator st))"

subsection \<open>The FSM, the reconciler, the blocking-op executor and the workers\<close>

text \<open>
  One request is followed to its end, with the workers idle when it arrives. Awaiting the
  handle of a queued item is then the worker's loop, run once for each item that is in
  the queue when the request suspends, the request's own item being the last. An
  iteration takes the head of the queue and runs the command through
  \<^verbatim>\<open>call_fsm_blocking\<close>.

  \<^verbatim>\<open>_state(s)\<close> is \<open>set_fsm_state event user s signal\<close>. The \<^verbatim>\<open>match\<close> reads the state with
  \<^verbatim>\<open>get_fsm_state\<close>, so it may enter the pair into the state map before any branch runs.

  The only exceptions of the model are those a blocking command raises, the ones the
  clause \<^verbatim>\<open>except Exception\<close> of \<^verbatim>\<open>call_fsm_blocking\<close> catches: the outcome \<open>Raised\<close> is
  the branch of that clause. A pass through the FSM itself raises nothing, the stack
  inspection answering with the empty record when it fails.
\<close>

function
  user_fsm :: "'o env \<Rightarrow> string \<Rightarrow> string \<Rightarrow> WorldSignal \<Rightarrow> 'o daemon \<Rightarrow> 'o daemon" and
  checking_state :: "'o env \<Rightarrow> string \<Rightarrow> string \<Rightarrow> 'o daemon \<Rightarrow> 'o daemon" and
  call_fsm_blocking ::
    "'o env \<Rightarrow> string \<Rightarrow> string \<Rightarrow> blocking_op \<Rightarrow> WorldSignal option \<Rightarrow> WorldSignal option
       \<Rightarrow> 'o daemon \<Rightarrow> 'o daemon" and
  worker_create :: "'o env \<Rightarrow> nat \<Rightarrow> 'o daemon \<Rightarrow> 'o daemon" and
  worker_stop :: "'o env \<Rightarrow> nat \<Rightarrow> 'o daemon \<Rightarrow> 'o daemon"
where
  "user_fsm env event user signal st0 =
     (let (current, st) = get_fsm_state event user st0 in
      case (current, signal) of
        (Notfound, sig_create) \<Rightarrow>
          (let st1 = set_fsm_state event user Creating signal st;
               st2 = st1\<lparr>create_queue := create_queue st1 @ [(event, user)]\<rparr>
           in worker_create env (length (create_queue st2)) st2)
      | (Notfound, sig_check) \<Rightarrow>
          checking_state env event user (set_fsm_state event user Checking signal st)
      | (Creating, sig_down) \<Rightarrow> set_fsm_state event user Stopped signal st
      | (Creating, sig_fail) \<Rightarrow>
          set_fsm_state event user Notfound signal
            (call_fsm_blocking env event user cmd_delete None None st)
      | (Checking, sig_up) \<Rightarrow> set_fsm_state event user Running signal st
      | (Checking, sig_down) \<Rightarrow> set_fsm_state event user Stopped signal st
      | (Checking, sig_fail) \<Rightarrow> set_fsm_state event user Notfound signal st
      | (Stopped, sig_check) \<Rightarrow>
          checking_state env event user (set_fsm_state event user Checking signal st)
      | (Stopped, sig_start) \<Rightarrow>
          call_fsm_blocking env event user cmd_start (Some sig_up) (Some sig_fail)
            (set_fsm_state event user Starting signal st)
      | (Starting, sig_up) \<Rightarrow> set_fsm_state event user Running signal st
      | (Starting, sig_fail) \<Rightarrow> set_fsm_state event user Stopped signal st
      | (Running, sig_check) \<Rightarrow>
          checking_state env event user (set_fsm_state event user Checking signal st)
      | (Running, sig_stop) \<Rightarrow>
          (let st1 = set_fsm_state event user Stopping signal st;
               st2 = st1\<lparr>stop_queue := stop_queue st1 @ [(event, user)]\<rparr>
           in worker_stop env (length (stop_queue st2)) st2)
      | (Stopping, sig_down) \<Rightarrow> set_fsm_state event user Stopped signal st
      | (Stopping, sig_fail) \<Rightarrow> set_fsm_state event user Stopped signal st
      | (current_state, _) \<Rightarrow> set_fsm_state event user current_state signal st)"
| "checking_state env event user st =
     (let health = get_health env event user st in
      if health = Some health_down then user_fsm env event user sig_down st
      else if health \<noteq> None then user_fsm env event user sig_up st
      else user_fsm env event user sig_fail st)"
| "call_fsm_blocking env event user op ok fail st =
     (let (res, fs, orch) =
            blocking env op event [user] (running_configdir st) (files st, orchestrator st);
          st1 = st\<lparr>files := fs, orchestrator := orch\<rparr>
      in case res of
           Returned r \<Rightarrow>
             (if r then (case ok of Some s \<Rightarrow> user_fsm env event user s st1 | None \<Rightarrow> st1)
              else (case fail of Some s \<Rightarrow> user_fsm env event user s st1 | None \<Rightarrow> st1))
         | Raised e \<Rightarrow>
             (let st2 = st1\<lparr>log := log st1 @ [Error_exception e]\<rparr>
              in case fail of Some s \<Rightarrow> user_fsm env event user s st2 | None \<Rightarrow> st2))"
| "worker_create env 0 st = st"
| "worker_create env (Suc n) st =
     (case create_queue st of
        [] \<Rightarrow> st
      | (event, user) # q \<Rightarrow>
          worker_create env n
            (call_fsm_blocking env event user cmd_create (Some sig_down) (Some sig_fail)
               (st\<lparr>create_queue := q\<rparr>)))"
| "worker_stop env 0 st = st"
| "worker_stop env (Suc n) st =
     (case stop_queue st of
        [] \<Rightarrow> st
      | (event, user) # q \<Rightarrow>
          worker_stop env n
            (call_fsm_blocking env event user cmd_stop (Some sig_down) (Some sig_fail)
               (st\<lparr>stop_queue := q\<rparr>)))"
  by pat_completeness auto


text \<open>
  Termination: the signals \<open>create\<close>, \<open>start\<close>, \<open>stop\<close> and \<open>check\<close> start work that only
  ever sends \<open>up\<close>, \<open>down\<close> or \<open>fail\<close>, and those three start nothing that sends a signal.
\<close>

definition sig_rank :: "WorldSignal \<Rightarrow> nat" where
  "sig_rank s =
     (case s of sig_create \<Rightarrow> 1 | sig_start \<Rightarrow> 1 | sig_stop \<Rightarrow> 1 | sig_check \<Rightarrow> 1 | _ \<Rightarrow> 0)"

definition opt_rank :: "WorldSignal option \<Rightarrow> nat" where
  "opt_rank s = (case s of None \<Rightarrow> 0 | Some x \<Rightarrow> 4 * sig_rank x + 2)"

termination user_fsm
  apply (relation "inv_image (less_than <*lex*> less_than)
     (\<lambda>x. case x of
        Inl (Inl (env, e, u, s, st)) \<Rightarrow> (4 * sig_rank s + 2, 0)
      | Inl (Inr (env, e, u, st)) \<Rightarrow> (3, 0)
      | Inr (Inl (env, e, u, op, ok, fail, st)) \<Rightarrow> (1 + max (opt_rank ok) (opt_rank fail), 0)
      | Inr (Inr (Inl (env, n, st))) \<Rightarrow> (4, n)
      | Inr (Inr (Inr (env, n, st))) \<Rightarrow> (4, n))")
  apply (auto simp: sig_rank_def opt_rank_def)
  done

declare user_fsm.simps [simp del]
declare checking_state.simps [simp del]
declare call_fsm_blocking.simps [simp del]

subsection \<open>Integrity check\<close>

definition check_fsm_integrity :: "'o env \<Rightarrow> string \<Rightarrow> string \<Rightarrow> 'o daemon \<Rightarrow> 'o daemon" where
  "check_fsm_integrity env event user st0 =
     (let (curr_state, st) = get_fsm_state event user st0;
          curr_config = path_exists (get_config_path event user st) st
      in if curr_config \<and> curr_state = Notfound then user_fsm env event user sig_check st
         else if \<not> curr_config \<and> curr_state \<noteq> Notfound
           then user_fsm env event user sig_check
                  (st\<lparr>log := log st @ [Warning_no_config event user]\<rparr>)
         else st)"

subsection \<open>HTTP handlers\<close>

text \<open>
  A response is its status and its text; \<^verbatim>\<open>web.Response(text=c)\<close> has status 200 and
  \<^verbatim>\<open>web.Response(status=n)\<close> has no text. Of a request the two path parameters are read.
\<close>

datatype Response = Response (status: nat) (body: "string option")

record Request =
  match_info_event :: string
  match_info_user :: string

definition validate_world_args ::
  "(string \<Rightarrow> string \<Rightarrow> 'o daemon \<Rightarrow> Response \<times> 'o daemon)
     \<Rightarrow> Request \<Rightarrow> 'o daemon \<Rightarrow> Response \<times> 'o daemon" where
  "validate_world_args func req st =
     (case validate_name (match_info_event req) of
        Inl ValueError \<Rightarrow> (Response 415 None, st)
      | Inr event \<Rightarrow>
          (case validate_name (match_info_user req) of
             Inl ValueError \<Rightarrow> (Response 415 None, st)
           | Inr user \<Rightarrow> func event user st))"

text \<open>
  \<^verbatim>\<open>if c := get_user_config(event, user)\<close> takes the first branch when the file is there
  and its contents are not the empty string.
\<close>

definition world_create :: "'o env \<Rightarrow> string \<Rightarrow> string \<Rightarrow> 'o daemon \<Rightarrow> Response \<times> 'o daemon" where
  "world_create env event user st0 =
     (let st1 = check_fsm_integrity env event user st0;
          (s1, st2) = get_fsm_state event user st1;
          st3 = (if s1 = Notfound then user_fsm env event user sig_create st2 else st2);
          (s2, st4) = get_fsm_state event user st3;
          st5 = (if s2 = Stopped then user_fsm env event user sig_start st4 else st4)
      in case get_user_config event user st5 of
           Some c \<Rightarrow> if c \<noteq> [] then (Response 200 (Some c), st5) else (Response 404 None, st5)
         | None \<Rightarrow> (Response 404 None, st5))"

section \<open>The port allocation service (portd/portd.py)\<close>

text \<open>\<^verbatim>\<open>str\<close> of an integer: its decimal digits, with a minus sign when negative.\<close>

fun digits :: "nat \<Rightarrow> string" where
  "digits n =
     (if n < 10 then [char_of (48 + n)] else digits (n div 10) @ [char_of (48 + n mod 10)])"

declare digits.simps [simp del]

definition str_int :: "int \<Rightarrow> string" where
  "str_int i = (if i < 0 then CHR ''-'' # digits (nat (- i)) else digits (nat i))"

text \<open>
  The handler's loop binds a socket to port 0 and reads the port the kernel chose, until
  that port is not in the blacklist. The kernel's choices are a parameter: \<open>assigned n\<close> is
  the port of the \<open>n\<close>-th bind of the request. The loop has no bound of its own, so it is a
  partial function and \<open>None\<close> stands for a loop that never ends. The query values are
  taken after \<^verbatim>\<open>int(v)\<close> has read them.
\<close>

partial_function (option) bind_loop :: "(nat \<Rightarrow> int) \<Rightarrow> int set \<Rightarrow> nat \<Rightarrow> int \<Rightarrow> int option" where
  "bind_loop assigned blacklist n port =
     (if port \<in> blacklist then bind_loop assigned blacklist (Suc n) (assigned n) else Some port)"

definition handle :: "(nat \<Rightarrow> int) \<Rightarrow> int list \<Rightarrow> Response option" where
  "handle assigned query =
     (let blacklist = set query;
          port = - 1;
          blacklist = insert port blacklist
      in map_option (\<lambda>port. Response 200 (Some (str_int port))) (bind_loop assigned blacklist 0 port))"


section \<open>Notions used in the statements\<close>

subsection \<open>Names\<close>

text \<open>
  The characters of the class; capital letters; the three kinds of name the boundary cases
  speak of; and the name rule of the data model: letters and digits only, 4 to 32 of them.
\<close>

definition alnum :: "char \<Rightarrow> bool" where
  "alnum c = in_class alnum_class c"

definition is_upper :: "char \<Rightarrow> bool" where
  "is_upper c = in_range (CHR ''A'', CHR ''Z'') c"

definition bad_name :: "string \<Rightarrow> bool" where
  "bad_name name \<longleftrightarrow> length name = 3 \<or> length name = 33 \<or> CHR ''-'' \<in> set name"

definition spec_name_ok :: "string \<Rightarrow> bool" where
  "spec_name_ok name \<longleftrightarrow> list_all alnum name \<and> 4 \<le> length name \<and> length name \<le> 32"

subsection \<open>The transition table and what is observed of a run\<close>

text \<open>
  The transition table as the design document prints it, row by row: a cell with an entry
  gives the new state, an empty cell gives \<open>None\<close>. \<open>table_next\<close> reads a cell the way the
  document says: an empty cell leaves the state as it is.
\<close>

definition table_4E :: "WorldState \<Rightarrow> WorldSignal \<Rightarrow> WorldState option" where
  "table_4E s g =
     (case (s, g) of
        (Notfound, sig_create) \<Rightarrow> Some Creating
      | (Notfound, sig_check) \<Rightarrow> Some Checking
      | (Checking, sig_up) \<Rightarrow> Some Running
      | (Checking, sig_down) \<Rightarrow> Some Stopped
      | (Checking, sig_fail) \<Rightarrow> Some Notfound
      | (Creating, sig_down) \<Rightarrow> Some Stopped
      | (Creating, sig_fail) \<Rightarrow> Some Notfound
      | (Stopped, sig_start) \<Rightarrow> Some Starting
      | (Stopped, sig_check) \<Rightarrow> Some Checking
      | (Starting, sig_up) \<Rightarrow> Some Running
      | (Starting, sig_fail) \<Rightarrow> Some Stopped
      | (Running, sig_stop) \<Rightarrow> Some Stopping
      | (Running, sig_check) \<Rightarrow> Some Checking
      | (Stopping, sig_down) \<Rightarrow> Some Stopped
      | (Stopping, sig_fail) \<Rightarrow> Some Stopped
      | _ \<Rightarrow> None)"

definition table_next :: "WorldState \<Rightarrow> WorldSignal \<Rightarrow> WorldState" where
  "table_next s g = (case table_4E s g of Some n \<Rightarrow> n | None \<Rightarrow> s)"

text \<open>
  The state of a world as an observer reads it, a missing entry counting as \<open>notfound\<close>;
  the records a run has added to the log; and the signals that went through the FSM, which
  are the transition lines among those records, in order.
\<close>

definition state_of :: "'o daemon \<Rightarrow> string \<Rightarrow> string \<Rightarrow> WorldState" where
  "state_of st event user =
     (case world_state st (event, user) of Some s \<Rightarrow> s | None \<Rightarrow> Notfound)"

definition new_records :: "'o daemon \<Rightarrow> 'o daemon \<Rightarrow> log_record list" where
  "new_records st st' = drop (length (log st)) (log st')"

fun signals_of :: "log_record list \<Rightarrow> (string \<times> string \<times> WorldSignal) list" where
  "signals_of [] = []"
| "signals_of (Info_transition e u a b g # rs) = (e, u, g) # signals_of rs"
| "signals_of (r # rs) = signals_of rs"

definition dispatched :: "'o daemon \<Rightarrow> 'o daemon \<Rightarrow> (string \<times> string \<times> WorldSignal) list" where
  "dispatched st st' = signals_of (new_records st st')"

text \<open>
  A transition line agrees with the table when its new state is the cell of its old state
  and signal. \<open>terminal_ok\<close> asks in addition that the signal is one of \<open>up\<close>, \<open>down\<close>, \<open>fail\<close>.
  \<open>evolves P st st'\<close>: the log of \<open>st'\<close> is the log of \<open>st\<close> with records satisfying \<open>P\<close>
  added, no world has left the state map, and the configuration directory is the same.
\<close>

fun record_ok :: "log_record \<Rightarrow> bool" where
  "record_ok (Info_transition e u a b g) = (b = table_next a g)"
| "record_ok _ = True"

fun record_terminal :: "log_record \<Rightarrow> bool" where
  "record_terminal (Info_transition e u a b g) = (g = sig_up \<or> g = sig_down \<or> g = sig_fail)"
| "record_terminal _ = True"

definition terminal_ok :: "log_record \<Rightarrow> bool" where
  "terminal_ok r \<longleftrightarrow> record_ok r \<and> record_terminal r"

definition evolves :: "(log_record \<Rightarrow> bool) \<Rightarrow> 'o daemon \<Rightarrow> 'o daemon \<Rightarrow> bool" where
  "evolves P st st' \<longleftrightarrow>
     (\<exists>xs. log st' = log st @ xs \<and> list_all P xs) \<and>
     dom (world_state st) \<subseteq> dom (world_state st') \<and>
     running_configdir st' = running_configdir st"

text \<open>Sending an optional signal: \<^verbatim>\<open>if ok: await user_fsm(event, user, ok)\<close>.\<close>

definition dispatch ::
  "'o env \<Rightarrow> string \<Rightarrow> string \<Rightarrow> WorldSignal option \<Rightarrow> 'o daemon \<Rightarrow> 'o daemon" where
  "dispatch env e u s st = (case s of Some g \<Rightarrow> user_fsm env e u g st | None \<Rightarrow> st)"

definition terminal_opt :: "WorldSignal option \<Rightarrow> bool" where
  "terminal_opt s \<longleftrightarrow> s \<in> {None, Some sig_up, Some sig_down, Some sig_fail}"

text \<open>The truth values \<^verbatim>\<open>determine_world_health\<close> collects from the services other than the VPN gateway.\<close>

definition services_status :: "(string \<times> service) list \<Rightarrow> bool list" where
  "services_status world_info =
     map (\<lambda>(hostname, s). service_get_up s)
       (filter (\<lambda>(hostname, s). hostname \<noteq> ''wireguard'') world_info)"

text \<open>
  \<open>follows_table st e u g st'\<close>: the records added between \<open>st\<close> and \<open>st'\<close> are, in order,
  records that are no transition lines, then the line of the transition of \<open>(e, u)\<close> from its
  state in \<open>st\<close> to the table's cell for the signal \<open>g\<close>, then lines of \<open>up\<close>, \<open>down\<close> and
  \<open>fail\<close> signals that agree with the table.
\<close>

fun no_signal :: "log_record \<Rightarrow> bool" where
  "no_signal (Info_transition e u a b g) = False"
| "no_signal _ = True"

definition follows_table :: "'o daemon \<Rightarrow> string \<Rightarrow> string \<Rightarrow> WorldSignal \<Rightarrow> 'o daemon \<Rightarrow> bool" where
  "follows_table st e u g st' \<longleftrightarrow>
     (\<exists>pre post.
        log st' = log st @ pre @
          Info_transition e u (state_of st e u) (table_next (state_of st e u) g) g # post
        \<and> signals_of pre = [] \<and> list_all terminal_ok post)"

text \<open>The first signal that went through the FSM between two states, if any did.\<close>

definition first_signal :: "'o daemon \<Rightarrow> 'o daemon \<Rightarrow> (string \<times> string \<times> WorldSignal) option" where
  "first_signal st st' = (case dispatched st st' of [] \<Rightarrow> None | x # _ \<Rightarrow> Some x)"

text \<open>The condition under which the integrity check sends \<open>check\<close>.\<close>

definition integrity_mismatch :: "'o daemon \<Rightarrow> string \<Rightarrow> string \<Rightarrow> bool" where
  "integrity_mismatch st e u \<longleftrightarrow>
     (path_exists (get_config_path e u st) st \<and> state_of st e u = Notfound)
     \<or> (\<not> path_exists (get_config_path e u st) st \<and> state_of st e u \<noteq> Notfound)"

text \<open>
  The steps of \<^verbatim>\<open>POST /{event}/create/{user}\<close> as the interface description lists them:
  the integrity check, then \<open>create\<close> if the world is \<open>notfound\<close>, then \<open>start\<close> if it is
  \<open>stopped\<close>.
\<close>

definition after_create :: "'o env \<Rightarrow> string \<Rightarrow> string \<Rightarrow> 'o daemon \<Rightarrow> 'o daemon" where
  "after_create env e u st =
     (let st1 = check_fsm_integrity env e u st
      in if state_of st1 e u = Notfound then user_fsm env e u sig_create st1 else st1)"

definition after_start :: "'o env \<Rightarrow> string \<Rightarrow> string \<Rightarrow> 'o daemon \<Rightarrow> 'o daemon" where
  "after_start env e u st =
     (let st2 = after_create env e u st
      in if state_of st2 e u = Stopped then user_fsm env e u sig_start st2 else st2)"

text \<open>A decimal digit.\<close>

definition is_digit :: "char \<Rightarrow> bool" where
  "is_digit c = in_range (CHR ''0'', CHR ''9'') c"

text \<open>
  The side-effect column of the transition table, as the design document prints it: on
  \<open>notfound\<close> with \<open>create\<close> enqueue the create and await the handle; on \<open>notfound\<close>,
  \<open>stopped\<close> and \<open>running\<close> with \<open>check\<close> run the health reconciler; on \<open>stopped\<close> with \<open>start\<close>
  run the start command through the executor, with \<open>up\<close> on success and \<open>fail\<close> on failure;
  on \<open>running\<close> with \<open>stop\<close> enqueue the stop and await the handle. The remaining cell with
  a side effect is \<open>creating\<close> with \<open>fail\<close>, a blocking delete; it is \<open>table_cleanup\<close> because
  the code runs it before the new state is written.
\<close>

definition has_side_effect :: "WorldState \<Rightarrow> WorldSignal \<Rightarrow> bool" where
  "has_side_effect s g \<longleftrightarrow>
     (s, g) \<in> {(Notfound, sig_create), (Notfound, sig_check), (Stopped, sig_check),
               (Running, sig_check), (Stopped, sig_start), (Running, sig_stop)}"

definition table_side_effect ::
  "'o env \<Rightarrow> string \<Rightarrow> string \<Rightarrow> WorldState \<Rightarrow> WorldSignal \<Rightarrow> 'o daemon \<Rightarrow> 'o daemon" where
  "table_side_effect env e u s g st =
     (if s = Notfound \<and> g = sig_create
        then worker_create env (Suc (length (create_queue st)))
               (st\<lparr>create_queue := create_queue st @ [(e, u)]\<rparr>)
      else if (s = Notfound \<or> s = Stopped \<or> s = Running) \<and> g = sig_check
        then checking_state env e u st
      else if s = Stopped \<and> g = sig_start
        then call_fsm_blocking env e u cmd_start (Some sig_up) (Some sig_fail) st
      else if s = Running \<and> g = sig_stop
        then worker_stop env (Suc (length (stop_queue st)))
               (st\<lparr>stop_queue := stop_queue st @ [(e, u)]\<rparr>)
      else st)"

definition table_cleanup ::
  "'o env \<Rightarrow> string \<Rightarrow> string \<Rightarrow> WorldState \<Rightarrow> WorldSignal \<Rightarrow> 'o daemon \<Rightarrow> 'o daemon" where
  "table_cleanup env e u s g st =
     (if s = Creating \<and> g = sig_fail
      then call_fsm_blocking env e u cmd_delete None None st else st)"

subsection \<open>Concrete inputs\<close>

text \<open>
  A daemon that has seen no world yet, with configuration directory \<^verbatim>\<open>/srv\<close> and no files.
\<close>

definition test_daemon :: "unit daemon" where
  "test_daemon = \<lparr>running_configdir = ''/srv'', world_state = Map.empty, create_queue = [],
     stop_queue = [], log = [], files = Map.empty, orchestrator = ()\<rparr>"

text \<open>
  A world \<open>(demo, alice)\<close> in a given state; commands that succeed, of which \<^verbatim>\<open>cmd_create\<close>
  writes the peer configuration; and three answers of the stack inspection: every service
  up, the gateway up and the one challenge service down, and no service at all.
\<close>

definition peer_conf :: string where
  "peer_conf = ''[Interface]''"

definition up_service :: service where
  "up_service = \<lparr>up = Some True\<rparr>"


definition test_blocking ::
  "blocking_op \<Rightarrow> string \<Rightarrow> string list \<Rightarrow> string \<Rightarrow> filesystem \<times> unit
     \<Rightarrow> op_outcome \<times> filesystem \<times> unit" where
  "test_blocking op event worlds config_dir w =
     (case worlds of
        [] \<Rightarrow> (Returned True, w)
      | user # _ \<Rightarrow>
          (Returned True,
           if op = cmd_create
           then (fst w)([config_dir, ''Events'', event, user, ''peer'', ''peer_'' @ user @ ''.conf'']
                   \<mapsto> peer_conf)
           else fst w,
           snd w))"

definition env_up :: "unit env" where
  "env_up = \<lparr>blocking = test_blocking,
     inspect = (\<lambda>p name w. [(''wireguard'', up_service), (''chall1'', up_service)])\<rparr>"



definition daemon_in :: "WorldState \<Rightarrow> unit daemon" where
  "daemon_in s = test_daemon\<lparr>world_state := [(''demo'', ''alice'') \<mapsto> s]\<rparr>"

text \<open>Commands with a fixed outcome that touch nothing.\<close>

definition fixed_blocking ::
  "op_outcome \<Rightarrow> blocking_op \<Rightarrow> string \<Rightarrow> string list \<Rightarrow> string \<Rightarrow> filesystem \<times> unit
     \<Rightarrow> op_outcome \<times> filesystem \<times> unit" where
  "fixed_blocking outcome op event worlds config_dir w = (outcome, w)"

definition env_outcome :: "op_outcome \<Rightarrow> unit env" where
  "env_outcome outcome = \<lparr>blocking = fixed_blocking outcome, inspect = (\<lambda>p name w. [])\<rparr>"

text \<open>The world \<open>(demo, alice)\<close> with a peer configuration file of given contents.\<close>

definition conf_path :: path where
  "conf_path = [''/srv'', ''Events'', ''demo'', ''alice'', ''peer'', ''peer_alice.conf'']"

definition with_conf :: "string \<Rightarrow> unit daemon \<Rightarrow> unit daemon" where
  "with_conf c st = st\<lparr>files := [conf_path \<mapsto> c]\<rparr>"

text \<open>A kernel that hands out the ports 1, 2, 3, ... in turn.\<close>

definition counting_kernel :: "nat \<Rightarrow> int" where
  "counting_kernel n = int n + 1"

section \<open>Properties of name validation\<close>

lemma sre_match_repeat:
  "sre_match [MAX_REPEAT_1 cls, AT_END, AT_END] pos s \<longleftrightarrow>
     (\<exists>xs. xs \<noteq> [] \<and> list_all (in_class cls) xs \<and> (s = xs \<or> s = xs @ [newline]))"
proof (induction s arbitrary: pos)
  case Nil
  show ?case by simp
next
  case (Cons c cs)
  show ?case
  proof
    assume m: "sre_match [MAX_REPEAT_1 cls, AT_END, AT_END] pos (c # cs)"
    then have c: "in_class cls c" by simp
    from m consider
        (more) "sre_match [MAX_REPEAT_1 cls, AT_END, AT_END] (Suc pos) cs"
      | (last_one) "cs = [] \<or> cs = [newline]"
      by auto
    then show "\<exists>xs. xs \<noteq> [] \<and> list_all (in_class cls) xs
                 \<and> (c # cs = xs \<or> c # cs = xs @ [newline])"
    proof cases
      case more
      then obtain xs where "xs \<noteq> []" "list_all (in_class cls) xs"
          "cs = xs \<or> cs = xs @ [newline]"
        using Cons.IH by blast
      then show ?thesis using c
        by (intro exI [of _ "c # xs"]) auto
    next
      case last_one
      then show ?thesis using c
        by (intro exI [of _ "[c]"]) auto
    qed
  next
    assume "\<exists>xs. xs \<noteq> [] \<and> list_all (in_class cls) xs
              \<and> (c # cs = xs \<or> c # cs = xs @ [newline])"
    then obtain xs where xs: "xs \<noteq> []" "list_all (in_class cls) xs"
        "c # cs = xs \<or> c # cs = xs @ [newline]" by blast
    then obtain ys where ys: "xs = c # ys" by (cases xs) auto
    show "sre_match [MAX_REPEAT_1 cls, AT_END, AT_END] pos (c # cs)"
    proof (cases "ys = []")
      case True
      then show ?thesis using xs ys by auto
    next
      case False
      then have "sre_match [MAX_REPEAT_1 cls, AT_END, AT_END] (Suc pos) cs"
        using xs ys Cons.IH [of "Suc pos"] by auto
      then show ?thesis using xs ys by auto
    qed
  qed
qed

lemma re_match_USER_ALLOWED_REGEX:
  "re_match USER_ALLOWED_REGEX name \<longleftrightarrow>
     (\<exists>xs. xs \<noteq> [] \<and> list_all alnum xs \<and> (name = xs \<or> name = xs @ [newline]))"
  by (simp add: re_match_def USER_ALLOWED_REGEX_def sre_match_repeat alnum_def [abs_def])

lemma alnum_iff:
  "alnum c \<longleftrightarrow> (65 \<le> (of_char c :: nat) \<and> (of_char c :: nat) \<le> 90)
     \<or> (97 \<le> (of_char c :: nat) \<and> (of_char c :: nat) \<le> 122)
     \<or> (48 \<le> (of_char c :: nat) \<and> (of_char c :: nat) \<le> 57)"
  by (simp add: alnum_def in_class_def alnum_class_def in_range_def)

lemma not_alnum_hyphen: "\<not> alnum CHR ''-''"
  by (simp add: alnum_iff)

lemma not_alnum_newline: "\<not> alnum newline"
  by (simp add: alnum_iff newline_def)

lemma re_match_no_hyphen:
  "re_match USER_ALLOWED_REGEX name \<Longrightarrow> CHR ''-'' \<notin> set name"
  unfolding re_match_USER_ALLOWED_REGEX
  using not_alnum_hyphen by (auto simp: list_all_iff newline_def)

lemma re_match_alnum: "name \<noteq> [] \<Longrightarrow> list_all alnum name \<Longrightarrow> re_match USER_ALLOWED_REGEX name"
  unfolding re_match_USER_ALLOWED_REGEX by blast

lemma validate_name_eq:
  "validate_name name =
     (if re_match USER_ALLOWED_REGEX name \<and> 4 \<le> length name \<and> length name \<le> 32
      then Inr (lower name) else Inl ValueError)"
  by (auto simp: validate_name_def USER_MAX_LEN_def USER_MIN_LEN_def USER_CASE_SENSITIVE_def)

lemma lower_char_not_upper: "\<not> is_upper (lower_char c)"
  by (auto simp: is_upper_def in_range_def lower_char_def)

lemma lower_no_upper: "list_all (\<lambda>c. \<not> is_upper c) (lower name)"
  by (simp add: lower_def list_all_iff lower_char_not_upper)

lemma lower_length [simp]: "length (lower name) = length name"
  by (simp add: lower_def)

lemma validate_name_bad: "bad_name name \<Longrightarrow> validate_name name = Inl ValueError"
  using re_match_no_hyphen [of name] by (auto simp: validate_name_eq bad_name_def)


lemma lower_append: "lower (xs @ ys) = lower xs @ lower ys"
  by (simp add: lower_def)

lemma validate_name_Demo: "validate_name ''Demo'' = Inr ''demo''"
  by code_simp

text \<open>
  Claim C10. A name made of 1 to 31 letters and digits followed by one newline, of total
  length at least 4, is accepted by \<^verbatim>\<open>validate_name\<close> and returned folded to small letters,
  although its last character is neither a letter nor a digit.
\<close>

theorem validate_name_trailing_newline:
  assumes "list_all alnum xs" and "1 \<le> length xs" and "length xs \<le> 31"
    and "4 \<le> length (xs @ [newline])"
  shows "validate_name (xs @ [newline]) = Inr (lower (xs @ [newline]))
         \<and> \<not> alnum (last (xs @ [newline]))"
proof -
  from assms have "xs \<noteq> []" by auto
  with assms have "re_match USER_ALLOWED_REGEX (xs @ [newline])"
    unfolding re_match_USER_ALLOWED_REGEX by blast
  with assms show ?thesis
    by (simp add: validate_name_eq not_alnum_newline)
qed

lemma abcd_newline: "''abcd'' @ [newline] = ''abcd\<newline>''"
  by code_simp

lemma alnum_abcd: "list_all alnum ''abcd''"
  by code_simp

lemma lower_abcd_newline: "lower ''abcd\<newline>'' = ''abcd\<newline>''"
  by code_simp

theorem validate_name_trailing_newline_witness:
  "list_all alnum ''abcd'' \<and> 1 \<le> length ''abcd'' \<and> length ''abcd'' \<le> 31
   \<and> 4 \<le> length (''abcd'' @ [newline])
   \<and> validate_name ''abcd\<newline>'' = Inr ''abcd\<newline>'' \<and> \<not> alnum CHR 0x0A"
  using validate_name_trailing_newline [of "''abcd''"] alnum_abcd
  by (simp add: abcd_newline lower_abcd_newline newline_def)

section \<open>Properties of the FSM\<close>

subsection \<open>Reading and writing a state\<close>

lemma get_fsm_state_fst: "fst (get_fsm_state e u st) = state_of st e u"
  by (simp add: get_fsm_state_def state_of_def split: option.splits)

lemma get_fsm_state_snd:
  "snd (get_fsm_state e u st) = st\<lparr>world_state := (world_state st)((e, u) \<mapsto> state_of st e u)\<rparr>"
  by (auto simp: get_fsm_state_def state_of_def map_upd_triv split: option.splits)

lemma get_fsm_state_eq:
  "get_fsm_state e u st = (state_of st e u, st\<lparr>world_state := (world_state st)((e, u) \<mapsto> state_of st e u)\<rparr>)"
  by (simp add: prod_eq_iff get_fsm_state_fst get_fsm_state_snd)

lemma set_fsm_state_eq:
  "set_fsm_state e u n g st =
     st\<lparr>world_state := (world_state st)((e, u) \<mapsto> n),
        log := log st @ [Info_transition e u (state_of st e u) n g]\<rparr>"
  by (simp add: set_fsm_state_def get_fsm_state_eq)

lemma state_of_world_state_update [simp]:
  "state_of (st\<lparr>world_state := m\<rparr>) e u = (case m (e, u) of Some s \<Rightarrow> s | None \<Rightarrow> Notfound)"
  by (simp add: state_of_def)

lemma state_of_other_update [simp]:
  "state_of (st\<lparr>log := l\<rparr>) = state_of st"
  "state_of (st\<lparr>create_queue := q\<rparr>) = state_of st"
  "state_of (st\<lparr>stop_queue := q\<rparr>) = state_of st"
  "state_of (st\<lparr>files := f\<rparr>) = state_of st"
  "state_of (st\<lparr>orchestrator := orc\<rparr>) = state_of st"
  by (simp_all add: state_of_def fun_eq_iff)

lemma user_fsm_up_down:
  "g = sig_up \<or> g = sig_down \<Longrightarrow>
   user_fsm env e u g st = set_fsm_state e u (table_next (state_of st e u) g) g st"
  by (cases "state_of st e u")
     (auto simp: user_fsm.simps get_fsm_state_eq set_fsm_state_eq table_next_def table_4E_def)



lemma evolves_refl [simp]: "evolves P st st"
  by (simp add: evolves_def)

lemma evolves_trans: "evolves P a b \<Longrightarrow> evolves P b c \<Longrightarrow> evolves P a c"
  by (auto simp: evolves_def)

lemma evolves_mono: "evolves P a b \<Longrightarrow> (\<And>r. P r \<Longrightarrow> Q r) \<Longrightarrow> evolves Q a b"
  by (auto simp: evolves_def list_all_iff)

lemma evolves_set_fsm_state:
  "P (Info_transition e u (state_of st e u) n g) \<Longrightarrow> evolves P st (set_fsm_state e u n g st)"
  by (auto simp: evolves_def set_fsm_state_eq)

lemma evolves_touch: "evolves P st (st\<lparr>world_state := (world_state st)((e, u) \<mapsto> s)\<rparr>)"
  by (auto simp: evolves_def)

lemma evolves_upd:
  "evolves P st (st\<lparr>create_queue := q\<rparr>)"
  "evolves P st (st\<lparr>stop_queue := q\<rparr>)"
  "evolves P st (st\<lparr>files := f, orchestrator := orc\<rparr>)"
  "P r \<Longrightarrow> evolves P st (st\<lparr>log := log st @ [r]\<rparr>)"
  by (auto simp: evolves_def)

lemma terminal_ok_simps [simp]:
  "terminal_ok (Info_transition e u a b g) \<longleftrightarrow>
     b = table_next a g \<and> (g = sig_up \<or> g = sig_down \<or> g = sig_fail)"
  "terminal_ok (Error_exception x)"
  "terminal_ok (Warning_no_config e u)"
  by (simp_all add: terminal_ok_def)


lemma dispatch_simps [simp]:
  "dispatch env e u None st = st"
  "dispatch env e u (Some g) st = user_fsm env e u g st"
  by (simp_all add: dispatch_def)

lemma call_fsm_blocking_eq:
  assumes "blocking env op e [u] (running_configdir st) (files st, orchestrator st) = (res, fs, orch)"
  shows "call_fsm_blocking env e u op ok fail st =
     (case res of
        Returned r \<Rightarrow>
          dispatch env e u (if r then ok else fail) (st\<lparr>files := fs, orchestrator := orch\<rparr>)
      | Raised x \<Rightarrow>
          dispatch env e u fail
            (st\<lparr>files := fs, orchestrator := orch, log := log st @ [Error_exception x]\<rparr>))"
  using assms
  by (simp add: call_fsm_blocking.simps [of env e u op ok fail st] Let_def dispatch_def
           split: op_outcome.splits)

lemma evolves_no_signal:
  "evolves terminal_ok st (call_fsm_blocking env e u op None None st)"
proof -
  obtain res fs orch where b:
    "blocking env op e [u] (running_configdir st) (files st, orchestrator st) = (res, fs, orch)"
    by (cases "blocking env op e [u] (running_configdir st) (files st, orchestrator st)") auto
  show ?thesis
    by (cases res) (auto simp: call_fsm_blocking_eq [OF b] evolves_def)
qed

lemma state_of_no_signal [simp]:
  "state_of (call_fsm_blocking env e u op None None st) = state_of st"
proof -
  obtain res fs orch where b:
    "blocking env op e [u] (running_configdir st) (files st, orchestrator st) = (res, fs, orch)"
    by (cases "blocking env op e [u] (running_configdir st) (files st, orchestrator st)") auto
  show ?thesis
    by (cases res) (auto simp: call_fsm_blocking_eq [OF b] state_of_def fun_eq_iff)
qed

lemma user_fsm_fail:
  "user_fsm env e u sig_fail st =
     (if state_of st e u = Creating
      then set_fsm_state e u Notfound sig_fail
             (call_fsm_blocking env e u cmd_delete None None
                (st\<lparr>world_state := (world_state st)((e, u) \<mapsto> Creating)\<rparr>))
      else set_fsm_state e u (table_next (state_of st e u) sig_fail) sig_fail st)"
  by (cases "state_of st e u")
     (auto simp: user_fsm.simps get_fsm_state_eq set_fsm_state_eq table_next_def table_4E_def)

lemma evolves_terminal:
  assumes "g = sig_up \<or> g = sig_down \<or> g = sig_fail"
  shows "evolves terminal_ok st (user_fsm env e u g st)"
proof (cases "g = sig_fail \<and> state_of st e u = Creating")
  case True
  let ?st1 = "st\<lparr>world_state := (world_state st)((e, u) \<mapsto> Creating)\<rparr>"
  let ?st2 = "call_fsm_blocking env e u cmd_delete None None ?st1"
  have "evolves terminal_ok st ?st1" by (rule evolves_touch)
  moreover have "evolves terminal_ok ?st1 ?st2" by (rule evolves_no_signal)
  moreover have "evolves terminal_ok ?st2 (set_fsm_state e u Notfound sig_fail ?st2)"
    by (rule evolves_set_fsm_state) (simp add: table_next_def table_4E_def)
  ultimately show ?thesis using True
    by (simp add: user_fsm_fail) (blast intro: evolves_trans)
next
  case False
  then show ?thesis using assms
    by (auto simp: user_fsm_fail user_fsm_up_down intro!: evolves_set_fsm_state)
qed

lemma checking_state_eq:
  "checking_state env e u st =
     user_fsm env e u (if get_health env e u st = Some health_down then sig_down else sig_up) st"
  by (auto simp: checking_state.simps get_health_def determine_world_health_def Let_def)

lemma evolves_checking_state: "evolves terminal_ok st (checking_state env e u st)"
  by (simp add: checking_state_eq evolves_terminal)

lemma evolves_blocking_terminal:
  assumes "terminal_opt ok" "terminal_opt fail"
  shows "evolves terminal_ok st (call_fsm_blocking env e u op ok fail st)"
proof -
  obtain res fs orch where b:
    "blocking env op e [u] (running_configdir st) (files st, orchestrator st) = (res, fs, orch)"
    by (cases "blocking env op e [u] (running_configdir st) (files st, orchestrator st)") auto
  let ?st1 = "st\<lparr>files := fs, orchestrator := orch\<rparr>"
  have 1: "evolves terminal_ok st ?st1" by (rule evolves_upd)
  have 2: "\<And>x. evolves terminal_ok st (st\<lparr>files := fs, orchestrator := orch, log := log st @ [Error_exception x]\<rparr>)"
    by (auto simp: evolves_def)
  have 3: "\<And>s st'. terminal_opt s \<Longrightarrow> evolves terminal_ok st st' \<Longrightarrow>
             evolves terminal_ok st (dispatch env e u s st')"
    by (auto simp: terminal_opt_def intro: evolves_trans [OF _ evolves_terminal])
  show ?thesis using assms 1 2 3
    by (cases res) (auto simp: call_fsm_blocking_eq [OF b])
qed

lemma evolves_worker_create: "evolves terminal_ok st (worker_create env n st)"
proof (induction n arbitrary: st)
  case 0
  show ?case by simp
next
  case (Suc n)
  show ?case
  proof (cases "create_queue st")
    case Nil
    then show ?thesis by simp
  next
    case (Cons k q)
    obtain e u where k: "k = (e, u)" by (cases k)
    let ?st1 = "st\<lparr>create_queue := q\<rparr>"
    let ?st2 = "call_fsm_blocking env e u cmd_create (Some sig_down) (Some sig_fail) ?st1"
    have "evolves terminal_ok st ?st1" by (rule evolves_upd)
    moreover have "evolves terminal_ok ?st1 ?st2"
      by (rule evolves_blocking_terminal) (simp_all add: terminal_opt_def)
    moreover have "evolves terminal_ok ?st2 (worker_create env n ?st2)" by (rule Suc.IH)
    ultimately show ?thesis using Cons k by (auto intro: evolves_trans)
  qed
qed

lemma evolves_worker_stop: "evolves terminal_ok st (worker_stop env n st)"
proof (induction n arbitrary: st)
  case 0
  show ?case by simp
next
  case (Suc n)
  show ?case
  proof (cases "stop_queue st")
    case Nil
    then show ?thesis by simp
  next
    case (Cons k q)
    obtain e u where k: "k = (e, u)" by (cases k)
    let ?st1 = "st\<lparr>stop_queue := q\<rparr>"
    let ?st2 = "call_fsm_blocking env e u cmd_stop (Some sig_down) (Some sig_fail) ?st1"
    have "evolves terminal_ok st ?st1" by (rule evolves_upd)
    moreover have "evolves terminal_ok ?st1 ?st2"
      by (rule evolves_blocking_terminal) (simp_all add: terminal_opt_def)
    moreover have "evolves terminal_ok ?st2 (worker_stop env n ?st2)" by (rule Suc.IH)
    ultimately show ?thesis using Cons k by (auto intro: evolves_trans)
  qed
qed

lemma touch_present:
  "state_of st e u \<noteq> Notfound \<Longrightarrow>
   st\<lparr>world_state := (world_state st)((e, u) \<mapsto> state_of st e u)\<rparr> = st"
  by (auto simp: state_of_def map_upd_triv split: option.splits)

subsection \<open>One pass through the FSM\<close>

lemma set_fsm_state_touch [simp]:
  "set_fsm_state e u n g (st\<lparr>world_state := (world_state st)((e, u) \<mapsto> state_of st e u)\<rparr>)
     = set_fsm_state e u n g st"
  by (simp add: set_fsm_state_eq)

lemma user_fsm_noop:
  "table_4E (state_of st e u) g = None \<Longrightarrow>
   user_fsm env e u g st = set_fsm_state e u (state_of st e u) g st"
  by (cases "state_of st e u"; cases g)
     (auto simp: user_fsm.simps get_fsm_state_eq set_fsm_state_eq table_4E_def)

lemma user_fsm_create:
  "state_of st e u = Notfound \<Longrightarrow>
   user_fsm env e u sig_create st =
     (let st1 = set_fsm_state e u Creating sig_create st;
          st2 = st1\<lparr>create_queue := create_queue st1 @ [(e, u)]\<rparr>
      in worker_create env (length (create_queue st2)) st2)"
  by (simp add: user_fsm.simps get_fsm_state_eq set_fsm_state_eq)

lemma user_fsm_stop:
  "state_of st e u = Running \<Longrightarrow>
   user_fsm env e u sig_stop st =
     (let st1 = set_fsm_state e u Stopping sig_stop st;
          st2 = st1\<lparr>stop_queue := stop_queue st1 @ [(e, u)]\<rparr>
      in worker_stop env (length (stop_queue st2)) st2)"
  by (simp add: user_fsm.simps get_fsm_state_eq set_fsm_state_eq)

lemma user_fsm_start:
  "state_of st e u = Stopped \<Longrightarrow>
   user_fsm env e u sig_start st =
     call_fsm_blocking env e u cmd_start (Some sig_up) (Some sig_fail)
       (set_fsm_state e u Starting sig_start st)"
  by (simp add: user_fsm.simps get_fsm_state_eq set_fsm_state_eq)

lemma user_fsm_check:
  "state_of st e u = Notfound \<or> state_of st e u = Stopped \<or> state_of st e u = Running \<Longrightarrow>
   user_fsm env e u sig_check st =
     checking_state env e u (set_fsm_state e u Checking sig_check st)"
  by (auto simp: user_fsm.simps get_fsm_state_eq set_fsm_state_eq)



lemma evolves_queue_left:
  "evolves P (st\<lparr>create_queue := q\<rparr>) st' \<Longrightarrow> evolves P st st'"
  "evolves P (st\<lparr>stop_queue := q\<rparr>) st' \<Longrightarrow> evolves P st st'"
  by (auto simp: evolves_def)

lemma table_next_simps [simp]:
  "table_next Notfound sig_create = Creating"
  "table_next Notfound sig_check = Checking"
  "table_next Stopped sig_check = Checking"
  "table_next Running sig_check = Checking"
  "table_next Stopped sig_start = Starting"
  "table_next Running sig_stop = Stopping"
  "table_next Creating sig_fail = Notfound"
  by (simp_all add: table_next_def table_4E_def)

lemma table_next_noop: "table_4E s g = None \<Longrightarrow> table_next s g = s"
  by (simp add: table_next_def)

lemma evolves_delete:
  "evolves no_signal st (call_fsm_blocking env e u op None None st)"
proof -
  obtain res fs orch where b:
    "blocking env op e [u] (running_configdir st) (files st, orchestrator st) = (res, fs, orch)"
    by (cases "blocking env op e [u] (running_configdir st) (files st, orchestrator st)") auto
  show ?thesis
    by (cases res) (auto simp: call_fsm_blocking_eq [OF b] evolves_def)
qed

lemma table_cases:
  "table_4E s g = None
   \<or> g = sig_up \<or> g = sig_down \<or> g = sig_fail
   \<or> (s = Notfound \<and> g = sig_create)
   \<or> ((s = Notfound \<or> s = Stopped \<or> s = Running) \<and> g = sig_check)
   \<or> (s = Stopped \<and> g = sig_start)
   \<or> (s = Running \<and> g = sig_stop)"
  by (cases s; cases g) (simp_all add: table_4E_def)

text \<open>
  Every pass through the FSM has the same shape: possibly the clean-up command (which may
  log an exception but sends no signal), then the write of the new state with its log line,
  then work that only sends \<open>up\<close>, \<open>down\<close> or \<open>fail\<close>.
\<close>

lemma user_fsm_decomp:
  "\<exists>st0. evolves no_signal st st0 \<and> state_of st0 = state_of st
      \<and> evolves terminal_ok
            (set_fsm_state e u (table_next (state_of st e u) g) g st0)
            (user_fsm env e u g st)"
proof -
  let ?cur = "state_of st e u"
  let ?set = "set_fsm_state e u (table_next ?cur g) g st"
  have direct: "evolves terminal_ok ?set (user_fsm env e u g st) \<Longrightarrow> ?thesis"
    by (intro exI [of _ st]) simp
  consider (noop) "table_4E ?cur g = None"
    | (updown) "g = sig_up \<or> g = sig_down"
    | (fail) "g = sig_fail"
    | (create) "?cur = Notfound" "g = sig_create"
    | (check) "?cur = Notfound \<or> ?cur = Stopped \<or> ?cur = Running" "g = sig_check"
    | (start) "?cur = Stopped" "g = sig_start"
    | (stop) "?cur = Running" "g = sig_stop"
    using table_cases [of ?cur g] by auto
  then show ?thesis
  proof cases
    case noop
    then show ?thesis
      by (intro direct) (simp add: user_fsm_noop table_next_noop)
  next
    case updown
    then show ?thesis
      by (intro direct) (simp add: user_fsm_up_down)
  next
    case fail
    show ?thesis
    proof (cases "?cur = Creating")
      case True
      let ?st0 = "call_fsm_blocking env e u cmd_delete None None
                    (st\<lparr>world_state := (world_state st)((e, u) \<mapsto> Creating)\<rparr>)"
      have "evolves no_signal st ?st0"
        by (rule evolves_trans [OF evolves_touch evolves_delete])
      moreover have "state_of ?st0 = state_of st"
        using True by (auto simp: fun_eq_iff state_of_def)
      moreover have "user_fsm env e u g st = set_fsm_state e u (table_next ?cur g) g ?st0"
        using True fail by (simp add: user_fsm_fail)
      ultimately show ?thesis
        by (intro exI [of _ ?st0]) simp
    next
      case False
      then show ?thesis using fail
        by (intro direct) (simp add: user_fsm_fail)
    qed
  next
    case create
    then show ?thesis
      by (intro direct, simp only: user_fsm_create Let_def table_next_simps)
         (rule evolves_queue_left(1), rule evolves_worker_create)
  next
    case check
    have "table_next ?cur g = Checking" using check by auto
    with check show ?thesis
      by (intro direct, simp only: user_fsm_check) (rule evolves_checking_state)
  next
    case start
    then show ?thesis
      by (intro direct, simp only: user_fsm_start table_next_simps)
         (rule evolves_blocking_terminal, simp_all add: terminal_opt_def)
  next
    case stop
    then show ?thesis
      by (intro direct, simp only: user_fsm_stop Let_def table_next_simps)
         (rule evolves_queue_left(2), rule evolves_worker_stop)
  qed
qed

lemma signals_of_no_signal: "list_all no_signal xs \<Longrightarrow> signals_of xs = []"
  by (induction xs rule: signals_of.induct) auto

lemma user_fsm_follows_table_aux:
  "follows_table st e u g (user_fsm env e u g st)"
proof -
  obtain st0 where a: "evolves no_signal st st0" and b: "state_of st0 = state_of st"
    and c: "evolves terminal_ok
              (set_fsm_state e u (table_next (state_of st e u) g) g st0) (user_fsm env e u g st)"
    using user_fsm_decomp by blast
  from a obtain pre where pre: "log st0 = log st @ pre" "list_all no_signal pre"
    by (auto simp: evolves_def)
  from c obtain post where post:
    "log (user_fsm env e u g st)
       = log (set_fsm_state e u (table_next (state_of st e u) g) g st0) @ post"
    "list_all terminal_ok post"
    by (auto simp: evolves_def)
  show ?thesis
    unfolding follows_table_def
    using pre post b
    by (intro exI [of _ pre] exI [of _ post]) (simp add: set_fsm_state_eq signals_of_no_signal)
qed

lemma terminal_ok_record_ok: "terminal_ok r \<Longrightarrow> record_ok r"
  by (simp add: terminal_ok_def)

lemma no_signal_record_ok: "no_signal r \<Longrightarrow> record_ok r"
  by (cases r) auto

lemma evolves_user_fsm: "evolves record_ok st (user_fsm env e u g st)"
proof -
  obtain st0 where a: "evolves no_signal st st0" and b: "state_of st0 = state_of st"
    and c: "evolves terminal_ok
              (set_fsm_state e u (table_next (state_of st e u) g) g st0) (user_fsm env e u g st)"
    using user_fsm_decomp by blast
  have 1: "evolves record_ok st st0"
    by (rule evolves_mono [OF a no_signal_record_ok])
  have 2: "evolves record_ok st0 (set_fsm_state e u (table_next (state_of st e u) g) g st0)"
    by (rule evolves_set_fsm_state) (simp add: b)
  have 3: "evolves record_ok
              (set_fsm_state e u (table_next (state_of st e u) g) g st0) (user_fsm env e u g st)"
    by (rule evolves_mono [OF c terminal_ok_record_ok])
  show ?thesis
    by (rule evolves_trans [OF evolves_trans [OF 1 2] 3])
qed

lemma user_fsm_key: "(e, u) \<in> dom (world_state (user_fsm env e u g st))"
proof -
  obtain st0 where
    c: "evolves terminal_ok
              (set_fsm_state e u (table_next (state_of st e u) g) g st0) (user_fsm env e u g st)"
    using user_fsm_decomp by blast
  have "(e, u) \<in> dom (world_state (set_fsm_state e u (table_next (state_of st e u) g) g st0))"
    by (simp add: set_fsm_state_eq)
  with c show ?thesis
    by (auto simp: evolves_def)
qed

lemma state_of_test_daemon [simp]: "state_of test_daemon e u = Notfound"
  by (simp add: state_of_def test_daemon_def)

lemma state_of_daemon_in [simp]: "state_of (daemon_in s) ''demo'' ''alice'' = s"
  by (simp add: state_of_def daemon_in_def test_daemon_def)

subsection \<open>The transition table\<close>

lemma new_records_append [simp]: "log st' = log st @ xs \<Longrightarrow> new_records st st' = xs"
  by (simp add: new_records_def)

lemma signals_of_append [simp]: "signals_of (xs @ ys) = signals_of xs @ signals_of ys"
  by (induction xs rule: signals_of.induct) auto

lemma new_records_evolves: "evolves P st st' \<Longrightarrow> list_all P (new_records st st')"
  by (auto simp: evolves_def)

lemma state_of_set_fsm_state:
  "state_of (set_fsm_state e u n g st) e' u' = (if (e', u') = (e, u) then n else state_of st e' u')"
  by (simp add: set_fsm_state_eq state_of_def)

lemma state_of_noop: "state_of (set_fsm_state e u (state_of st e u) g st) = state_of st"
  by (auto simp: fun_eq_iff state_of_set_fsm_state)

lemma has_side_effect_cases:
  "has_side_effect s g \<longleftrightarrow>
     (s = Notfound \<and> g = sig_create)
     \<or> ((s = Notfound \<or> s = Stopped \<or> s = Running) \<and> g = sig_check)
     \<or> (s = Stopped \<and> g = sig_start)
     \<or> (s = Running \<and> g = sig_stop)"
  by (auto simp: has_side_effect_def)

lemma no_side_effect: "\<not> has_side_effect s g \<Longrightarrow> table_side_effect env e u s g st = st"
  by (auto simp: has_side_effect_cases table_side_effect_def)

lemma table_4E_side_effect: "has_side_effect s g \<Longrightarrow> table_4E s g \<noteq> None"
  by (auto simp: has_side_effect_cases table_4E_def)

lemma user_fsm_table:
  "user_fsm env e u g st =
     table_side_effect env e u (state_of st e u) g
       (set_fsm_state e u (table_next (state_of st e u) g) g
          (table_cleanup env e u (state_of st e u) g st))"
proof -
  let ?cur = "state_of st e u"
  consider (noop) "table_4E ?cur g = None"
    | (updown) "g = sig_up \<or> g = sig_down"
    | (fail) "g = sig_fail"
    | (create) "?cur = Notfound" "g = sig_create"
    | (check) "?cur = Notfound \<or> ?cur = Stopped \<or> ?cur = Running" "g = sig_check"
    | (start) "?cur = Stopped" "g = sig_start"
    | (stop) "?cur = Running" "g = sig_stop"
    using table_cases [of ?cur g] by auto
  then show ?thesis
  proof cases
    case noop
    then have "\<not> has_side_effect ?cur g" "\<not> (?cur = Creating \<and> g = sig_fail)"
      using table_4E_side_effect [of ?cur g] by (auto simp: table_4E_def)
    then show ?thesis
      using noop by (auto simp: no_side_effect table_cleanup_def user_fsm_noop table_next_noop)
  next
    case updown
    then have "\<not> has_side_effect ?cur g"
      by (auto simp: has_side_effect_cases)
    then show ?thesis
      using updown by (auto simp: no_side_effect table_cleanup_def user_fsm_up_down)
  next
    case fail
    then have n: "\<not> has_side_effect ?cur g"
      by (auto simp: has_side_effect_cases)
    show ?thesis
    proof (cases "?cur = Creating")
      case True
      have "st\<lparr>world_state := (world_state st)((e, u) \<mapsto> state_of st e u)\<rparr> = st"
        using True by (intro touch_present) simp
      then have "st\<lparr>world_state := (world_state st)((e, u) \<mapsto> Creating)\<rparr> = st"
        using True by simp
      then show ?thesis
        using True fail n by (simp add: no_side_effect table_cleanup_def user_fsm_fail)
    next
      case False
      then show ?thesis
        using fail n by (simp add: no_side_effect table_cleanup_def user_fsm_fail)
    qed
  next
    case create
    then show ?thesis
      by (simp only: user_fsm_create Let_def table_next_simps table_side_effect_def
            table_cleanup_def)
         (simp add: set_fsm_state_eq)
  next
    case check
    have "table_next ?cur g = Checking" using check by auto
    with check show ?thesis
      by (simp only: user_fsm_check table_side_effect_def table_cleanup_def) auto
  next
    case start
    then show ?thesis
      by (simp only: user_fsm_start table_next_simps table_side_effect_def table_cleanup_def)
         simp
  next
    case stop
    then show ?thesis
      by (simp only: user_fsm_stop Let_def table_next_simps table_side_effect_def
            table_cleanup_def)
         (simp add: set_fsm_state_eq)
  qed
qed

lemma evolves_table_side_effect:
  "evolves terminal_ok st (table_side_effect env e u s g st)"
  unfolding table_side_effect_def
  by (auto intro: evolves_queue_left(1) [OF evolves_worker_create]
        evolves_queue_left(2) [OF evolves_worker_stop] evolves_checking_state
        evolves_blocking_terminal simp: terminal_opt_def
      simp del: worker_create.simps worker_stop.simps)

lemma state_of_table_cleanup: "state_of (table_cleanup env e u s g st) = state_of st"
  by (simp add: table_cleanup_def)


text \<open>
  Claim C1, as the code has it. For every world and every signal, a pass through
  \<^verbatim>\<open>user_fsm\<close> is: the clean-up of the cell, if it has one (it changes no state); then the
  write of the state that the table of section 4.E gives for the world's state and the
  signal (the state itself where the cell is empty), with its log line; then the side
  effect of the cell, if it has one, run to its end, which only sends \<open>up\<close>, \<open>down\<close> and
  \<open>fail\<close>, each in agreement with the table. So for a cell without side effect (every empty
  cell and every cell of \<open>up\<close>, \<open>down\<close> and \<open>fail\<close>) the world is in the table's state when
  the pass returns; where the cell is empty the pass is a no-op: every world is observed in
  the state it had, the signal is the only one that went through, and queues, files and
  orchestrator are as before. For the six cells with a side effect the table's state is the
  one written, and the state on return is the one the side effect leaves.
\<close>

theorem user_fsm_transition_table:
  "user_fsm env e u g st =
     table_side_effect env e u (state_of st e u) g
       (set_fsm_state e u (table_next (state_of st e u) g) g
          (table_cleanup env e u (state_of st e u) g st))
   \<and> state_of (table_cleanup env e u (state_of st e u) g st) = state_of st
   \<and> state_of (set_fsm_state e u (table_next (state_of st e u) g) g
                  (table_cleanup env e u (state_of st e u) g st)) e u
        = table_next (state_of st e u) g
   \<and> evolves terminal_ok
         (set_fsm_state e u (table_next (state_of st e u) g) g
            (table_cleanup env e u (state_of st e u) g st))
         (user_fsm env e u g st)
   \<and> (\<not> has_side_effect (state_of st e u) g \<longrightarrow>
        state_of (user_fsm env e u g st) e u = table_next (state_of st e u) g)
   \<and> (table_4E (state_of st e u) g = None \<longrightarrow>
        state_of (user_fsm env e u g st) = state_of st
        \<and> dispatched st (user_fsm env e u g st) = [(e, u, g)]
        \<and> create_queue (user_fsm env e u g st) = create_queue st
        \<and> stop_queue (user_fsm env e u g st) = stop_queue st
        \<and> files (user_fsm env e u g st) = files st
        \<and> orchestrator (user_fsm env e u g st) = orchestrator st)
   \<and> follows_table st e u g (user_fsm env e u g st)
   \<and> list_all record_ok (new_records st (user_fsm env e u g st))"
proof (intro conjI impI)
  show "user_fsm env e u g st =
     table_side_effect env e u (state_of st e u) g
       (set_fsm_state e u (table_next (state_of st e u) g) g
          (table_cleanup env e u (state_of st e u) g st))"
    by (rule user_fsm_table)
  show "state_of (table_cleanup env e u (state_of st e u) g st) = state_of st"
    by (rule state_of_table_cleanup)
  show "state_of (set_fsm_state e u (table_next (state_of st e u) g) g
                  (table_cleanup env e u (state_of st e u) g st)) e u
        = table_next (state_of st e u) g"
    by (simp add: state_of_set_fsm_state)
  show "evolves terminal_ok
         (set_fsm_state e u (table_next (state_of st e u) g) g
            (table_cleanup env e u (state_of st e u) g st))
         (user_fsm env e u g st)"
    by (subst user_fsm_table) (rule evolves_table_side_effect)
  show "follows_table st e u g (user_fsm env e u g st)"
    by (rule user_fsm_follows_table_aux)
  show "list_all record_ok (new_records st (user_fsm env e u g st))"
    by (rule new_records_evolves [OF evolves_user_fsm])
next
  assume "\<not> has_side_effect (state_of st e u) g"
  then show "state_of (user_fsm env e u g st) e u = table_next (state_of st e u) g"
    by (subst user_fsm_table) (simp add: no_side_effect state_of_set_fsm_state)
next
  assume n: "table_4E (state_of st e u) g = None"
  show "state_of (user_fsm env e u g st) = state_of st"
    by (simp add: user_fsm_noop [OF n] state_of_noop)
  show "dispatched st (user_fsm env e u g st) = [(e, u, g)]"
    by (simp add: user_fsm_noop [OF n] dispatched_def set_fsm_state_eq)
  show "create_queue (user_fsm env e u g st) = create_queue st"
    by (simp add: user_fsm_noop [OF n] set_fsm_state_eq)
  show "stop_queue (user_fsm env e u g st) = stop_queue st"
    by (simp add: user_fsm_noop [OF n] set_fsm_state_eq)
  show "files (user_fsm env e u g st) = files st"
    by (simp add: user_fsm_noop [OF n] set_fsm_state_eq)
  show "orchestrator (user_fsm env e u g st) = orchestrator st"
    by (simp add: user_fsm_noop [OF n] set_fsm_state_eq)
qed

theorem user_fsm_transition_table_witness:
  "\<not> has_side_effect (state_of test_daemon ''demo'' ''alice'') sig_stop
   \<and> table_4E (state_of test_daemon ''demo'' ''alice'') sig_stop = None
   \<and> state_of (user_fsm env_up ''demo'' ''alice'' sig_stop test_daemon) ''demo'' ''alice'' = Notfound
   \<and> dispatched test_daemon (user_fsm env_up ''demo'' ''alice'' sig_stop test_daemon)
        = [(''demo'', ''alice'', sig_stop)]
   \<and> \<not> has_side_effect (state_of (daemon_in Checking) ''demo'' ''alice'') sig_up
   \<and> table_4E Checking sig_up = Some Running
   \<and> state_of (user_fsm env_up ''demo'' ''alice'' sig_up (daemon_in Checking)) ''demo'' ''alice''
        = Running"
proof -
  note t1 = user_fsm_transition_table [of env_up "''demo''" "''alice''" sig_stop test_daemon]
  note t2 = user_fsm_transition_table
              [of env_up "''demo''" "''alice''" sig_up "daemon_in Checking"]
  have h1: "\<not> has_side_effect (state_of test_daemon ''demo'' ''alice'') sig_stop"
    and h2: "table_4E (state_of test_daemon ''demo'' ''alice'') sig_stop = None"
    and h3: "\<not> has_side_effect (state_of (daemon_in Checking) ''demo'' ''alice'') sig_up"
    and h4: "table_4E Checking sig_up = Some Running"
    by (simp_all add: has_side_effect_def table_4E_def)
  have a: "state_of (user_fsm env_up ''demo'' ''alice'' sig_stop test_daemon) ''demo'' ''alice''
             = Notfound"
    using t1 [THEN conjunct2, THEN conjunct2, THEN conjunct2, THEN conjunct2, THEN conjunct1] h1
    by (simp add: table_next_def table_4E_def)
  have b: "dispatched test_daemon (user_fsm env_up ''demo'' ''alice'' sig_stop test_daemon)
             = [(''demo'', ''alice'', sig_stop)]"
    using t1 [THEN conjunct2, THEN conjunct2, THEN conjunct2, THEN conjunct2, THEN conjunct2,
              THEN conjunct1] h2
    by simp
  have c: "state_of (user_fsm env_up ''demo'' ''alice'' sig_up (daemon_in Checking))
             ''demo'' ''alice'' = Running"
    using t2 [THEN conjunct2, THEN conjunct2, THEN conjunct2, THEN conjunct2, THEN conjunct1] h3
    by (simp add: table_next_def table_4E_def)
  show ?thesis
    using a b c h1 h2 h3 h4 by simp
qed

text \<open>
  Claim C1 as stated fails for a cell with a side effect. On \<open>create\<close> for a world that is
  \<open>notfound\<close> the table's new state is \<open>creating\<close>, but the pass awaits the create worker,
  whose command succeeds and sends \<open>down\<close>: when the pass returns the world is \<open>stopped\<close>.
\<close>

theorem user_fsm_create_returns_stopped_counterexample:
  "state_of test_daemon ''demo'' ''alice'' = Notfound
   \<and> table_4E Notfound sig_create = Some Creating
   \<and> state_of (user_fsm env_up ''demo'' ''alice'' sig_create test_daemon) ''demo'' ''alice''
      = Stopped"
  by (simp add: user_fsm_create set_fsm_state_eq call_fsm_blocking.simps env_up_def
        test_blocking_def user_fsm_up_down table_next_def table_4E_def state_of_def
        test_daemon_def Let_def)

subsection \<open>The health reconciler\<close>

lemma determine_world_health_eq:
  "determine_world_health world_info =
     (if services_status world_info = [] then Some health_down
      else if list_all (\<lambda>b. b) (services_status world_info) then Some health_up
      else if list_ex (\<lambda>b. b) (services_status world_info) then Some health_degraded
      else Some health_down)"
  by (simp add: determine_world_health_def services_status_def Let_def)

lemma checking_state_log:
  "log (checking_state env e u st) =
     log st @ [Info_transition e u (state_of st e u)
                 (table_next (state_of st e u)
                    (if get_health env e u st = Some health_down then sig_down else sig_up))
                 (if get_health env e u st = Some health_down then sig_down else sig_up)]"
  by (simp add: checking_state_eq user_fsm_up_down set_fsm_state_eq)


lemma checking_state_dispatched:
  "dispatched st (checking_state env e u st) =
     [(e, u, if get_health env e u st = Some health_down then sig_down else sig_up)]"
  by (simp add: dispatched_def new_records_append [OF checking_state_log])

text \<open>
  Claim C9. \<^verbatim>\<open>determine_world_health\<close> returns one of the three health values for every
  answer of the stack inspection, never \<open>None\<close>. So the reconciler sends exactly one signal,
  \<open>up\<close> or \<open>down\<close>; it never sends \<open>fail\<close>, and the transition from \<open>checking\<close> to \<open>notfound\<close> on
  \<open>fail\<close> is not among the lines it logs.
\<close>

theorem checking_state_never_fails:
  "determine_world_health world_info \<in> {Some health_up, Some health_degraded, Some health_down}
   \<and> determine_world_health world_info \<noteq> None
   \<and> (dispatched st (checking_state env e u st) = [(e, u, sig_up)]
        \<or> dispatched st (checking_state env e u st) = [(e, u, sig_down)])
   \<and> (e, u, sig_fail) \<notin> set (dispatched st (checking_state env e u st))
   \<and> Info_transition e u Checking Notfound sig_fail
        \<notin> set (new_records st (checking_state env e u st))"
  by (simp add: determine_world_health_eq checking_state_dispatched
        new_records_append [OF checking_state_log])






subsection \<open>The blocking-op executor\<close>

lemma first_signal_none: "log st' = log st @ l \<Longrightarrow> signals_of l = [] \<Longrightarrow> first_signal st st' = None"
  by (simp add: first_signal_def dispatched_def)

lemma first_signal_user_fsm:
  assumes "log st1 = log st @ l" and "signals_of l = []"
  shows "first_signal st (user_fsm env e u g st1) = Some (e, u, g)"
proof -
  obtain pre post where
    "log (user_fsm env e u g st1) = log st1 @ pre @
       Info_transition e u (state_of st1 e u) (table_next (state_of st1 e u) g) g # post"
    "signals_of pre = []"
    using user_fsm_follows_table_aux [of st1 e u g env] unfolding follows_table_def by blast
  then have "log (user_fsm env e u g st1) = log st @ (l @ pre @
       Info_transition e u (state_of st1 e u) (table_next (state_of st1 e u) g) g # post)"
    using assms by simp
  then show ?thesis
    using assms \<open>signals_of pre = []\<close>
    by (simp add: first_signal_def dispatched_def del: append_assoc)
qed

lemma first_signal_dispatch:
  assumes "log st1 = log st @ l" and "signals_of l = []"
  shows "first_signal st (dispatch env e u s st1) = map_option (\<lambda>g. (e, u, g)) s"
  using assms by (cases s) (simp_all add: first_signal_none first_signal_user_fsm)

lemma evolves_dispatch: "evolves record_ok st (dispatch env e u s st)"
  by (cases s) (simp_all add: evolves_user_fsm)

lemma log_dispatch_prefix: "\<exists>xs. log (dispatch env e u s st) = log st @ xs"
  using evolves_dispatch [of st env e u s] by (auto simp: evolves_def)

text \<open>
  Claim C6. Let the command return or raise. If it returns a true value the \<open>ok\<close> signal,
  when there is one, goes through the FSM; if it returns a false value the \<open>fail\<close> signal,
  when there is one, does; where there is none, no signal is sent. If the command raises,
  the exception is logged (the first record added) and then the \<open>fail\<close> signal, when there
  is one, goes through the FSM. In each case the executor returns a state of the daemon:
  the exception is consumed, and the log has only grown by lines that agree with the table.
\<close>

theorem call_fsm_blocking_outcomes:
  assumes "blocking env op e [u] (running_configdir st) (files st, orchestrator st)
             = (res, fs, orch)"
  shows "call_fsm_blocking env e u op ok fail st =
           (case res of
              Returned r \<Rightarrow>
                dispatch env e u (if r then ok else fail) (st\<lparr>files := fs, orchestrator := orch\<rparr>)
            | Raised x \<Rightarrow>
                dispatch env e u fail
                  (st\<lparr>files := fs, orchestrator := orch, log := log st @ [Error_exception x]\<rparr>))
         \<and> (\<forall>r. res = Returned r \<longrightarrow>
               first_signal st (call_fsm_blocking env e u op ok fail st)
                 = map_option (\<lambda>g. (e, u, g)) (if r then ok else fail))
         \<and> (\<forall>x. res = Raised x \<longrightarrow>
               first_signal st (call_fsm_blocking env e u op ok fail st)
                 = map_option (\<lambda>g. (e, u, g)) fail
               \<and> (\<exists>rest. new_records st (call_fsm_blocking env e u op ok fail st)
                            = Error_exception x # rest))
         \<and> evolves record_ok st (call_fsm_blocking env e u op ok fail st)"
proof (intro conjI allI impI)
  show "call_fsm_blocking env e u op ok fail st =
           (case res of
              Returned r \<Rightarrow>
                dispatch env e u (if r then ok else fail) (st\<lparr>files := fs, orchestrator := orch\<rparr>)
            | Raised x \<Rightarrow>
                dispatch env e u fail
                  (st\<lparr>files := fs, orchestrator := orch, log := log st @ [Error_exception x]\<rparr>))"
    by (rule call_fsm_blocking_eq [OF assms])
next
  fix r assume "res = Returned r"
  then show "first_signal st (call_fsm_blocking env e u op ok fail st)
                 = map_option (\<lambda>g. (e, u, g)) (if r then ok else fail)"
    by (simp only: call_fsm_blocking_eq [OF assms] op_outcome.case)
       (rule first_signal_dispatch [where l = "[]"], simp_all)
next
  fix x assume x: "res = Raised x"
  then show "first_signal st (call_fsm_blocking env e u op ok fail st)
                 = map_option (\<lambda>g. (e, u, g)) fail"
    by (simp only: call_fsm_blocking_eq [OF assms] op_outcome.case)
       (rule first_signal_dispatch [where l = "[Error_exception x]"], simp_all)
  let ?st2 = "st\<lparr>files := fs, orchestrator := orch, log := log st @ [Error_exception x]\<rparr>"
  obtain xs where "log (dispatch env e u fail ?st2) = log ?st2 @ xs"
    using log_dispatch_prefix by blast
  then have "log (dispatch env e u fail ?st2) = log st @ (Error_exception x # xs)"
    by simp
  then show "\<exists>rest. new_records st (call_fsm_blocking env e u op ok fail st)
                            = Error_exception x # rest"
    using x by (simp only: call_fsm_blocking_eq [OF assms] op_outcome.case new_records_append) simp
next
  have 1: "evolves record_ok st (st\<lparr>files := fs, orchestrator := orch\<rparr>)"
    by (rule evolves_upd)
  have 2: "\<And>x. evolves record_ok st
                (st\<lparr>files := fs, orchestrator := orch, log := log st @ [Error_exception x]\<rparr>)"
    by (auto simp: evolves_def)
  show "evolves record_ok st (call_fsm_blocking env e u op ok fail st)"
    by (cases res)
       (auto simp: call_fsm_blocking_eq [OF assms]
             intro: evolves_trans [OF 1 evolves_dispatch] evolves_trans [OF 2 evolves_dispatch])
qed


lemma blocking_env_outcome:
  "blocking (env_outcome outcome) op e ws (running_configdir st) (files st, orchestrator st)
     = (outcome, files st, ())"
  by (simp add: env_outcome_def fixed_blocking_def)

theorem call_fsm_blocking_outcomes_witness:
  "blocking (env_outcome (Returned True)) cmd_start ''demo'' [''alice'']
       (running_configdir (daemon_in Starting))
       (files (daemon_in Starting), orchestrator (daemon_in Starting))
     = (Returned True, files (daemon_in Starting), ())
   \<and> first_signal (daemon_in Starting)
         (call_fsm_blocking (env_outcome (Returned True)) ''demo'' ''alice'' cmd_start
            (Some sig_up) (Some sig_fail) (daemon_in Starting))
       = Some (''demo'', ''alice'', sig_up)
   \<and> blocking (env_outcome (Returned False)) cmd_start ''demo'' [''alice'']
       (running_configdir (daemon_in Starting))
       (files (daemon_in Starting), orchestrator (daemon_in Starting))
     = (Returned False, files (daemon_in Starting), ())
   \<and> first_signal (daemon_in Starting)
         (call_fsm_blocking (env_outcome (Returned False)) ''demo'' ''alice'' cmd_start
            (Some sig_up) (Some sig_fail) (daemon_in Starting))
       = Some (''demo'', ''alice'', sig_fail)
   \<and> blocking (env_outcome (Raised ''boom'')) cmd_start ''demo'' [''alice'']
       (running_configdir (daemon_in Starting))
       (files (daemon_in Starting), orchestrator (daemon_in Starting))
     = (Raised ''boom'', files (daemon_in Starting), ())
   \<and> first_signal (daemon_in Starting)
         (call_fsm_blocking (env_outcome (Raised ''boom'')) ''demo'' ''alice'' cmd_start
            (Some sig_up) (Some sig_fail) (daemon_in Starting))
       = Some (''demo'', ''alice'', sig_fail)
   \<and> hd (new_records (daemon_in Starting)
         (call_fsm_blocking (env_outcome (Raised ''boom'')) ''demo'' ''alice'' cmd_start
            (Some sig_up) (Some sig_fail) (daemon_in Starting)))
       = Error_exception ''boom''"
proof -
  note t = call_fsm_blocking_outcomes
             [where op = cmd_start and e = "''demo''" and u = "''alice''"
                and st = "daemon_in Starting" and ok = "Some sig_up" and fail = "Some sig_fail"]
  note t1 = t [where env = "env_outcome (Returned True)", OF blocking_env_outcome]
  note t2 = t [where env = "env_outcome (Returned False)", OF blocking_env_outcome]
  note t3 = t [where env = "env_outcome (Raised ''boom'')", OF blocking_env_outcome]
  have a: "first_signal (daemon_in Starting)
         (call_fsm_blocking (env_outcome (Returned True)) ''demo'' ''alice'' cmd_start
            (Some sig_up) (Some sig_fail) (daemon_in Starting))
       = Some (''demo'', ''alice'', sig_up)"
    using t1 [THEN conjunct2, THEN conjunct1, THEN spec, of True] by simp
  have b: "first_signal (daemon_in Starting)
         (call_fsm_blocking (env_outcome (Returned False)) ''demo'' ''alice'' cmd_start
            (Some sig_up) (Some sig_fail) (daemon_in Starting))
       = Some (''demo'', ''alice'', sig_fail)"
    using t2 [THEN conjunct2, THEN conjunct1, THEN spec, of False] by simp
  have c: "first_signal (daemon_in Starting)
         (call_fsm_blocking (env_outcome (Raised ''boom'')) ''demo'' ''alice'' cmd_start
            (Some sig_up) (Some sig_fail) (daemon_in Starting))
       = Some (''demo'', ''alice'', sig_fail)
     \<and> hd (new_records (daemon_in Starting)
         (call_fsm_blocking (env_outcome (Raised ''boom'')) ''demo'' ''alice'' cmd_start
            (Some sig_up) (Some sig_fail) (daemon_in Starting)))
       = Error_exception ''boom''"
    using t3 [THEN conjunct2, THEN conjunct2, THEN conjunct1, THEN spec, of "''boom''"] by auto
  show ?thesis
    using a b c by (simp add: env_outcome_def fixed_blocking_def)
qed

subsection \<open>The integrity check\<close>

lemma check_fsm_integrity_eq:
  "check_fsm_integrity env e u st =
     (if path_exists (get_config_path e u st) st \<and> state_of st e u = Notfound
      then user_fsm env e u sig_check
             (st\<lparr>world_state := (world_state st)((e, u) \<mapsto> state_of st e u)\<rparr>)
      else if \<not> path_exists (get_config_path e u st) st \<and> state_of st e u \<noteq> Notfound
      then user_fsm env e u sig_check
             (st\<lparr>world_state := (world_state st)((e, u) \<mapsto> state_of st e u),
                 log := log st @ [Warning_no_config e u]\<rparr>)
      else st\<lparr>world_state := (world_state st)((e, u) \<mapsto> state_of st e u)\<rparr>)"
  by (simp add: check_fsm_integrity_def get_fsm_state_eq path_exists_def get_config_path_def
        get_world_path_def)

lemma state_of_touch:
  "state_of (st\<lparr>world_state := (world_state st)((e, u) \<mapsto> state_of st e u)\<rparr>) = state_of st"
  by (auto simp: fun_eq_iff state_of_def)

lemma no_check_after:
  "list_all terminal_ok post \<Longrightarrow> filter (\<lambda>x. snd (snd x) = sig_check) (signals_of post) = []"
  by (induction post rule: signals_of.induct) auto

lemma check_sent_once:
  assumes "log st1 = log st @ l" and "signals_of l = []"
  shows "filter (\<lambda>x. snd (snd x) = sig_check)
           (dispatched st (user_fsm env e u sig_check st1)) = [(e, u, sig_check)]"
proof -
  obtain pre post where p:
    "log (user_fsm env e u sig_check st1) = log st1 @ pre @
       Info_transition e u (state_of st1 e u) (table_next (state_of st1 e u) sig_check) sig_check
         # post"
    "signals_of pre = []" "list_all terminal_ok post"
    using user_fsm_follows_table_aux [of st1 e u sig_check env]
    unfolding follows_table_def by blast
  then have "log (user_fsm env e u sig_check st1) = log st @ (l @ pre @
       Info_transition e u (state_of st1 e u) (table_next (state_of st1 e u) sig_check) sig_check
         # post)"
    using assms by simp
  then show ?thesis
    using assms p(2,3)
    by (simp add: dispatched_def no_check_after del: append_assoc)
qed

text \<open>
  Claim C5. The integrity check reads the world's state and whether its peer configuration
  file exists. If the file exists and the state is \<open>notfound\<close>, or the file is missing and
  the state is not \<open>notfound\<close>, it sends \<open>check\<close>, first and exactly once. Otherwise it sends
  nothing and logs nothing, every world is observed in the state it had, and queues, files
  and orchestrator are as before.
\<close>

theorem check_fsm_integrity_sends_check:
  "(integrity_mismatch st e u \<longrightarrow>
      filter (\<lambda>x. snd (snd x) = sig_check) (dispatched st (check_fsm_integrity env e u st))
        = [(e, u, sig_check)]
      \<and> first_signal st (check_fsm_integrity env e u st) = Some (e, u, sig_check))
   \<and> (\<not> integrity_mismatch st e u \<longrightarrow>
      dispatched st (check_fsm_integrity env e u st) = []
      \<and> log (check_fsm_integrity env e u st) = log st
      \<and> state_of (check_fsm_integrity env e u st) = state_of st
      \<and> create_queue (check_fsm_integrity env e u st) = create_queue st
      \<and> stop_queue (check_fsm_integrity env e u st) = stop_queue st
      \<and> files (check_fsm_integrity env e u st) = files st
      \<and> orchestrator (check_fsm_integrity env e u st) = orchestrator st)"
proof (intro conjI impI)
  assume m: "integrity_mismatch st e u"
  from m consider
      (found) "path_exists (get_config_path e u st) st" "state_of st e u = Notfound"
    | (lost) "\<not> path_exists (get_config_path e u st) st" "state_of st e u \<noteq> Notfound"
    by (auto simp: integrity_mismatch_def)
  then have "filter (\<lambda>x. snd (snd x) = sig_check) (dispatched st (check_fsm_integrity env e u st))
        = [(e, u, sig_check)]
      \<and> first_signal st (check_fsm_integrity env e u st) = Some (e, u, sig_check)"
  proof cases
    case found
    then show ?thesis
      by (simp only: check_fsm_integrity_eq simp_thms if_True)
         (intro conjI check_sent_once [where l = "[]"] first_signal_user_fsm [where l = "[]"];
          simp)
  next
    case lost
    then show ?thesis
      by (simp only: check_fsm_integrity_eq simp_thms if_True if_False)
         (intro conjI check_sent_once [where l = "[Warning_no_config e u]"]
            first_signal_user_fsm [where l = "[Warning_no_config e u]"];
          simp)
  qed
  then show "filter (\<lambda>x. snd (snd x) = sig_check)
               (dispatched st (check_fsm_integrity env e u st)) = [(e, u, sig_check)]"
    and "first_signal st (check_fsm_integrity env e u st) = Some (e, u, sig_check)"
    by simp_all
next
  assume m: "\<not> integrity_mismatch st e u"
  then have r: "check_fsm_integrity env e u st
                  = st\<lparr>world_state := (world_state st)((e, u) \<mapsto> state_of st e u)\<rparr>"
    by (auto simp: check_fsm_integrity_eq integrity_mismatch_def)
  show "dispatched st (check_fsm_integrity env e u st) = []"
    by (simp add: r dispatched_def new_records_def)
  show "log (check_fsm_integrity env e u st) = log st"
    by (simp add: r)
  show "state_of (check_fsm_integrity env e u st) = state_of st"
    by (simp only: r state_of_touch)
  show "create_queue (check_fsm_integrity env e u st) = create_queue st"
    by (simp add: r)
  show "stop_queue (check_fsm_integrity env e u st) = stop_queue st"
    by (simp add: r)
  show "files (check_fsm_integrity env e u st) = files st"
    by (simp add: r)
  show "orchestrator (check_fsm_integrity env e u st) = orchestrator st"
    by (simp add: r)
qed

lemma integrity_mismatch_examples:
  "integrity_mismatch (with_conf peer_conf test_daemon) ''demo'' ''alice''"
  "integrity_mismatch (daemon_in Running) ''demo'' ''alice''"
  "\<not> integrity_mismatch (with_conf peer_conf (daemon_in Running)) ''demo'' ''alice''"
  by (simp_all add: integrity_mismatch_def path_exists_def get_config_path_def
        get_world_path_def with_conf_def conf_path_def daemon_in_def test_daemon_def state_of_def)

theorem check_fsm_integrity_sends_check_witness:
  "integrity_mismatch (with_conf peer_conf test_daemon) ''demo'' ''alice''
   \<and> first_signal (with_conf peer_conf test_daemon)
        (check_fsm_integrity env_up ''demo'' ''alice'' (with_conf peer_conf test_daemon))
       = Some (''demo'', ''alice'', sig_check)
   \<and> integrity_mismatch (daemon_in Running) ''demo'' ''alice''
   \<and> first_signal (daemon_in Running)
        (check_fsm_integrity env_up ''demo'' ''alice'' (daemon_in Running))
       = Some (''demo'', ''alice'', sig_check)
   \<and> \<not> integrity_mismatch (with_conf peer_conf (daemon_in Running)) ''demo'' ''alice''
   \<and> dispatched (with_conf peer_conf (daemon_in Running))
        (check_fsm_integrity env_up ''demo'' ''alice'' (with_conf peer_conf (daemon_in Running)))
       = []"
  using check_fsm_integrity_sends_check
          [of "with_conf peer_conf test_daemon" "''demo''" "''alice''" env_up]
        check_fsm_integrity_sends_check [of "daemon_in Running" "''demo''" "''alice''" env_up]
        check_fsm_integrity_sends_check
          [of "with_conf peer_conf (daemon_in Running)" "''demo''" "''alice''" env_up]
        integrity_mismatch_examples
  by simp

subsection \<open>The create handler\<close>

lemma get_fsm_state_present:
  "(e, u) \<in> dom (world_state st) \<Longrightarrow> get_fsm_state e u st = (state_of st e u, st)"
  by (auto simp: get_fsm_state_def state_of_def)

lemma check_fsm_integrity_key: "(e, u) \<in> dom (world_state (check_fsm_integrity env e u st))"
  by (simp add: check_fsm_integrity_eq user_fsm_key)

lemma after_create_key: "(e, u) \<in> dom (world_state (after_create env e u st))"
  by (simp add: after_create_def Let_def user_fsm_key check_fsm_integrity_key)

lemma after_start_key: "(e, u) \<in> dom (world_state (after_start env e u st))"
  by (simp add: after_start_def Let_def user_fsm_key after_create_key)

lemma world_create_eq:
  "world_create env e u st =
     (case get_user_config e u (after_start env e u st) of
        Some c \<Rightarrow> if c \<noteq> [] then Response 200 (Some c) else Response 404 None
      | None \<Rightarrow> Response 404 None,
      after_start env e u st)"
proof -
  have 1: "get_fsm_state e u (check_fsm_integrity env e u st)
             = (state_of (check_fsm_integrity env e u st) e u, check_fsm_integrity env e u st)"
    by (rule get_fsm_state_present [OF check_fsm_integrity_key])
  have 2: "get_fsm_state e u (after_create env e u st)
             = (state_of (after_create env e u st) e u, after_create env e u st)"
    by (rule get_fsm_state_present [OF after_create_key])
  have 3: "(if state_of (check_fsm_integrity env e u st) e u = Notfound
            then user_fsm env e u sig_create (check_fsm_integrity env e u st)
            else check_fsm_integrity env e u st) = after_create env e u st"
    by (simp add: after_create_def Let_def)
  have 4: "(if state_of (after_create env e u st) e u = Stopped
            then user_fsm env e u sig_start (after_create env e u st)
            else after_create env e u st) = after_start env e u st"
    by (simp add: after_start_def Let_def)
  show ?thesis
    unfolding world_create_def Let_def 1 prod.case 3 2 4
    by (simp split: option.splits)
qed


lemmas run_simps = after_start_def after_create_def Let_def check_fsm_integrity_eq path_exists_def
     get_config_path_def get_world_path_def test_daemon_def daemon_in_def with_conf_def conf_path_def
     state_of_def user_fsm_create user_fsm_noop user_fsm_fail
     set_fsm_state_eq call_fsm_blocking.simps env_up_def env_outcome_def fixed_blocking_def
     test_blocking_def user_fsm_up_down user_fsm_start table_next_def table_4E_def

lemma fresh_create_run:
  "state_of (after_start env_up ''demo'' ''alice'' test_daemon) ''demo'' ''alice'' = Running"
  "files (after_start env_up ''demo'' ''alice'' test_daemon) conf_path = Some peer_conf"
  "running_configdir (after_start env_up ''demo'' ''alice'' test_daemon) = ''/srv''"
  "state_of (check_fsm_integrity env_up ''demo'' ''alice'' test_daemon) ''demo'' ''alice'' = Notfound"
  "state_of (after_create env_up ''demo'' ''alice'' test_daemon) ''demo'' ''alice'' = Stopped"
  by (simp_all add: run_simps)

lemma failed_create_run:
  "state_of (after_start (env_outcome (Returned False)) ''demo'' ''alice'' test_daemon)
     ''demo'' ''alice'' = Notfound"
  "files (after_start (env_outcome (Returned False)) ''demo'' ''alice'' test_daemon) conf_path = None"
  "running_configdir (after_start (env_outcome (Returned False)) ''demo'' ''alice'' test_daemon)
     = ''/srv''"
  by (simp_all add: run_simps)



text \<open>
  Claim C2. For a request to \<^verbatim>\<open>POST /{event}/create/{user}\<close> whose two names are valid, the
  handler runs on the folded names and leaves the daemon in the state reached by the
  integrity check, then \<open>create\<close> if the world is then \<open>notfound\<close> (the signal is the first to
  go through the FSM), then \<open>start\<close> if the world is then \<open>stopped\<close> (again the first signal of
  that step). It answers 200 with the contents of the peer configuration file when the file
  exists and is not empty, and 404 when the file is absent.
\<close>

theorem world_create_steps:
  assumes "validate_name (match_info_event req) = Inr e"
    and "validate_name (match_info_user req) = Inr u"
  shows "snd (validate_world_args (world_create env) req st) = after_start env e u st
    \<and> (state_of (check_fsm_integrity env e u st) e u = Notfound \<longrightarrow>
         first_signal (check_fsm_integrity env e u st) (after_create env e u st)
           = Some (e, u, sig_create))
    \<and> (state_of (check_fsm_integrity env e u st) e u \<noteq> Notfound \<longrightarrow>
         after_create env e u st = check_fsm_integrity env e u st)
    \<and> (state_of (after_create env e u st) e u = Stopped \<longrightarrow>
         first_signal (after_create env e u st) (after_start env e u st)
           = Some (e, u, sig_start))
    \<and> (state_of (after_create env e u st) e u \<noteq> Stopped \<longrightarrow>
         after_start env e u st = after_create env e u st)
    \<and> (\<forall>c. files (after_start env e u st) (get_config_path e u (after_start env e u st)) = Some c
            \<and> c \<noteq> [] \<longrightarrow>
         fst (validate_world_args (world_create env) req st) = Response 200 (Some c))
    \<and> (files (after_start env e u st) (get_config_path e u (after_start env e u st)) = None \<longrightarrow>
         fst (validate_world_args (world_create env) req st) = Response 404 None)"
proof -
  have w: "validate_world_args (world_create env) req st = world_create env e u st"
    using assms by (simp add: validate_world_args_def)
  show ?thesis
  proof (intro conjI impI allI)
    show "snd (validate_world_args (world_create env) req st) = after_start env e u st"
      by (simp add: w world_create_eq)
  next
    assume "state_of (check_fsm_integrity env e u st) e u = Notfound"
    then show "first_signal (check_fsm_integrity env e u st) (after_create env e u st)
                 = Some (e, u, sig_create)"
      by (simp add: after_create_def Let_def first_signal_user_fsm [where l = "[]"])
  next
    assume "state_of (check_fsm_integrity env e u st) e u \<noteq> Notfound"
    then show "after_create env e u st = check_fsm_integrity env e u st"
      by (simp add: after_create_def Let_def)
  next
    assume "state_of (after_create env e u st) e u = Stopped"
    then show "first_signal (after_create env e u st) (after_start env e u st)
                 = Some (e, u, sig_start)"
      by (simp add: after_start_def Let_def first_signal_user_fsm [where l = "[]"])
  next
    assume "state_of (after_create env e u st) e u \<noteq> Stopped"
    then show "after_start env e u st = after_create env e u st"
      by (simp add: after_start_def Let_def)
  next
    fix c
    assume "files (after_start env e u st) (get_config_path e u (after_start env e u st)) = Some c
            \<and> c \<noteq> []"
    then show "fst (validate_world_args (world_create env) req st) = Response 200 (Some c)"
      by (simp add: w world_create_eq get_user_config_def)
  next
    assume "files (after_start env e u st) (get_config_path e u (after_start env e u st)) = None"
    then show "fst (validate_world_args (world_create env) req st) = Response 404 None"
      by (simp add: w world_create_eq get_user_config_def)
  qed
qed

lemma validate_name_demo_alice:
  "validate_name ''demo'' = Inr ''demo''" "validate_name ''alice'' = Inr ''alice''"
  by code_simp+

lemma running_run:
  "state_of (check_fsm_integrity env_up ''demo'' ''alice'' (with_conf peer_conf (daemon_in Running)))
     ''demo'' ''alice'' = Running"
  "state_of (after_create env_up ''demo'' ''alice'' (with_conf peer_conf (daemon_in Running)))
     ''demo'' ''alice'' = Running"
  by (simp_all add: run_simps)

lemma conf_path_eq:
  "running_configdir st = ''/srv'' \<Longrightarrow> get_config_path ''demo'' ''alice'' st = conf_path"
  by (simp add: get_config_path_def get_world_path_def conf_path_def)

theorem world_create_steps_witness:
  "validate_name (match_info_event \<lparr>match_info_event = ''Demo'', match_info_user = ''ALICE42''\<rparr>)
     = Inr ''demo''
   \<and> validate_name (match_info_user \<lparr>match_info_event = ''demo'', match_info_user = ''alice''\<rparr>)
     = Inr ''alice''
   \<and> state_of (check_fsm_integrity env_up ''demo'' ''alice'' test_daemon) ''demo'' ''alice''
     = Notfound
   \<and> first_signal (check_fsm_integrity env_up ''demo'' ''alice'' test_daemon)
        (after_create env_up ''demo'' ''alice'' test_daemon)
     = Some (''demo'', ''alice'', sig_create)
   \<and> state_of (after_create env_up ''demo'' ''alice'' test_daemon) ''demo'' ''alice'' = Stopped
   \<and> first_signal (after_create env_up ''demo'' ''alice'' test_daemon)
        (after_start env_up ''demo'' ''alice'' test_daemon)
     = Some (''demo'', ''alice'', sig_start)
   \<and> fst (validate_world_args (world_create env_up)
        \<lparr>match_info_event = ''demo'', match_info_user = ''alice''\<rparr> test_daemon)
     = Response 200 (Some peer_conf)
   \<and> peer_conf \<noteq> []
   \<and> state_of (snd (validate_world_args (world_create env_up)
        \<lparr>match_info_event = ''demo'', match_info_user = ''alice''\<rparr> test_daemon))
        ''demo'' ''alice'' = Running
   \<and> fst (validate_world_args (world_create (env_outcome (Returned False)))
        \<lparr>match_info_event = ''demo'', match_info_user = ''alice''\<rparr> test_daemon)
     = Response 404 None
   \<and> after_start env_up ''demo'' ''alice'' (with_conf peer_conf (daemon_in Running))
     = check_fsm_integrity env_up ''demo'' ''alice'' (with_conf peer_conf (daemon_in Running))"
proof -
  note t = world_create_steps
             [where req = "\<lparr>match_info_event = ''demo'', match_info_user = ''alice''\<rparr>"
                and e = "''demo''" and u = "''alice''"]
  have v: "validate_name (match_info_event \<lparr>match_info_event = ''demo'', match_info_user = ''alice''\<rparr>)
             = Inr ''demo''"
          "validate_name (match_info_user \<lparr>match_info_event = ''demo'', match_info_user = ''alice''\<rparr>)
             = Inr ''alice''"
    by (simp_all add: validate_name_demo_alice)
  note t1 = t [where env = env_up and st = test_daemon, OF v]
  note t2 = t [where env = "env_outcome (Returned False)" and st = test_daemon, OF v]
  note t3 = t [where env = env_up and st = "with_conf peer_conf (daemon_in Running)", OF v]
  have p1: "get_config_path ''demo'' ''alice'' (after_start env_up ''demo'' ''alice'' test_daemon)
              = conf_path"
    by (rule conf_path_eq) (rule fresh_create_run)
  have p2: "get_config_path ''demo'' ''alice''
              (after_start (env_outcome (Returned False)) ''demo'' ''alice'' test_daemon)
              = conf_path"
    by (rule conf_path_eq) (rule failed_create_run)
  have a: "first_signal (check_fsm_integrity env_up ''demo'' ''alice'' test_daemon)
             (after_create env_up ''demo'' ''alice'' test_daemon)
           = Some (''demo'', ''alice'', sig_create)"
    using t1 [THEN conjunct2, THEN conjunct1] by (simp add: fresh_create_run)
  have b: "first_signal (after_create env_up ''demo'' ''alice'' test_daemon)
             (after_start env_up ''demo'' ''alice'' test_daemon)
           = Some (''demo'', ''alice'', sig_start)"
    using t1 [THEN conjunct2, THEN conjunct2, THEN conjunct2, THEN conjunct1]
    by (simp add: fresh_create_run)
  have c: "fst (validate_world_args (world_create env_up)
             \<lparr>match_info_event = ''demo'', match_info_user = ''alice''\<rparr> test_daemon)
           = Response 200 (Some peer_conf)"
    using t1 [THEN conjunct2, THEN conjunct2, THEN conjunct2, THEN conjunct2, THEN conjunct2,
              THEN conjunct1, THEN spec, of peer_conf]
    by (simp add: p1 fresh_create_run) (simp add: peer_conf_def)
  have d: "state_of (snd (validate_world_args (world_create env_up)
             \<lparr>match_info_event = ''demo'', match_info_user = ''alice''\<rparr> test_daemon))
             ''demo'' ''alice'' = Running"
    using t1 [THEN conjunct1] by (simp add: fresh_create_run)
  have e: "fst (validate_world_args (world_create (env_outcome (Returned False)))
             \<lparr>match_info_event = ''demo'', match_info_user = ''alice''\<rparr> test_daemon)
           = Response 404 None"
    using t2 [THEN conjunct2, THEN conjunct2, THEN conjunct2, THEN conjunct2, THEN conjunct2,
              THEN conjunct2]
    by (simp add: p2 failed_create_run)
  have f: "after_start env_up ''demo'' ''alice'' (with_conf peer_conf (daemon_in Running))
           = check_fsm_integrity env_up ''demo'' ''alice'' (with_conf peer_conf (daemon_in Running))"
    using t3 [THEN conjunct2, THEN conjunct2, THEN conjunct1]
          t3 [THEN conjunct2, THEN conjunct2, THEN conjunct2, THEN conjunct2, THEN conjunct1]
    by (simp add: running_run)
  show ?thesis
    using a b c d e f
    by (simp add: validate_name_Demo validate_name_demo_alice fresh_create_run)
       (simp add: peer_conf_def)
qed

lemma after_start_running:
  assumes "state_of st e u = Running" and "path_exists (get_config_path e u st) st"
  shows "after_start env e u st = st"
proof -
  have "st\<lparr>world_state := (world_state st)((e, u) \<mapsto> state_of st e u)\<rparr> = st"
    using assms(1) by (intro touch_present) simp
  then have "check_fsm_integrity env e u st = st"
    using assms by (simp only: check_fsm_integrity_eq) simp
  then show ?thesis
    using assms by (simp add: after_start_def after_create_def)
qed

text \<open>
  Claim C7, as the code has it. For a world whose state is \<open>running\<close> and whose peer
  configuration file exists and is not empty, a request to \<^verbatim>\<open>POST /{event}/create/{user}\<close>
  sends no signal at all (so neither \<open>create\<close> nor \<open>start\<close>), leaves the daemon as it was, the
  world \<open>running\<close>, and answers 200 with the contents of the file.
\<close>

theorem world_create_running_idempotent:
  assumes "validate_name (match_info_event req) = Inr e"
    and "validate_name (match_info_user req) = Inr u"
    and "state_of st e u = Running"
    and "files st (get_config_path e u st) = Some c"
    and "c \<noteq> []"
  shows "validate_world_args (world_create env) req st = (Response 200 (Some c), st)
    \<and> dispatched st (snd (validate_world_args (world_create env) req st)) = []
    \<and> state_of (snd (validate_world_args (world_create env) req st)) e u = Running"
proof -
  have w: "validate_world_args (world_create env) req st = world_create env e u st"
    using assms(1,2) by (simp add: validate_world_args_def)
  have "path_exists (get_config_path e u st) st"
    using assms(4) by (simp add: path_exists_def)
  then have "after_start env e u st = st"
    using assms(3) by (rule after_start_running [rotated])
  then show ?thesis
    using assms(3,4,5)
    by (simp add: w world_create_eq get_user_config_def dispatched_def new_records_def)
qed

lemma running_with_conf:
  "state_of (with_conf c (daemon_in Running)) ''demo'' ''alice'' = Running"
  "files (with_conf c (daemon_in Running))
     (get_config_path ''demo'' ''alice'' (with_conf c (daemon_in Running))) = Some c"
  "path_exists (get_config_path ''demo'' ''alice'' (with_conf c (daemon_in Running)))
     (with_conf c (daemon_in Running))"
  by (simp_all add: run_simps)

theorem world_create_running_idempotent_witness:
  "validate_name (match_info_event \<lparr>match_info_event = ''demo'', match_info_user = ''alice''\<rparr>)
     = Inr ''demo''
   \<and> validate_name (match_info_user \<lparr>match_info_event = ''demo'', match_info_user = ''alice''\<rparr>)
     = Inr ''alice''
   \<and> state_of (with_conf peer_conf (daemon_in Running)) ''demo'' ''alice'' = Running
   \<and> files (with_conf peer_conf (daemon_in Running))
        (get_config_path ''demo'' ''alice'' (with_conf peer_conf (daemon_in Running)))
      = Some peer_conf
   \<and> peer_conf \<noteq> []
   \<and> validate_world_args (world_create env_up)
        \<lparr>match_info_event = ''demo'', match_info_user = ''alice''\<rparr>
        (with_conf peer_conf (daemon_in Running))
      = (Response 200 (Some peer_conf), with_conf peer_conf (daemon_in Running))"
proof -
  have v: "validate_name (match_info_event \<lparr>match_info_event = ''demo'', match_info_user = ''alice''\<rparr>)
             = Inr ''demo''"
          "validate_name (match_info_user \<lparr>match_info_event = ''demo'', match_info_user = ''alice''\<rparr>)
             = Inr ''alice''"
    by (simp_all add: validate_name_demo_alice)
  have n: "peer_conf \<noteq> []"
    by (simp add: peer_conf_def)
  note t = world_create_running_idempotent
             [where env = env_up, OF v running_with_conf(1) running_with_conf(2) n]
  show ?thesis
    using t v n running_with_conf [of peer_conf] by simp
qed

text \<open>
  Claim C7 as stated fails for a world whose peer configuration file exists but is empty:
  the handler answers 404.
\<close>

theorem world_create_running_empty_config_counterexample:
  "state_of (with_conf [] (daemon_in Running)) ''demo'' ''alice'' = Running
   \<and> path_exists (get_config_path ''demo'' ''alice'' (with_conf [] (daemon_in Running)))
        (with_conf [] (daemon_in Running))
   \<and> get_user_config ''demo'' ''alice'' (with_conf [] (daemon_in Running)) = Some []
   \<and> validate_world_args (world_create env_up)
        \<lparr>match_info_event = ''demo'', match_info_user = ''alice''\<rparr>
        (with_conf [] (daemon_in Running))
      = (Response 404 None, with_conf [] (daemon_in Running))"
proof -
  have "after_start env_up ''demo'' ''alice'' (with_conf [] (daemon_in Running))
          = with_conf [] (daemon_in Running)"
    by (rule after_start_running) (rule running_with_conf)+
  then show ?thesis
    by (simp add: validate_world_args_def validate_name_demo_alice world_create_eq
          get_user_config_def running_with_conf)
qed

subsection \<open>Names that reach the handlers\<close>

lemma validate_world_args_eq:
  "validate_world_args func req st =
     (case (validate_name (match_info_event req), validate_name (match_info_user req)) of
        (Inr event, Inr user) \<Rightarrow> func event user st
      | _ \<Rightarrow> (Response 415 None, st))"
  by (simp add: validate_world_args_def split: sum.splits error.splits)

lemma validate_name_spec_rule:
  assumes "name = [] \<or> last name \<noteq> newline"
  shows "validate_name name = (if spec_name_ok name then Inr (lower name) else Inl ValueError)"
proof -
  have "re_match USER_ALLOWED_REGEX name \<longleftrightarrow> name \<noteq> [] \<and> list_all alnum name"
    unfolding re_match_USER_ALLOWED_REGEX using assms by auto
  then show ?thesis
    by (auto simp: validate_name_eq spec_name_ok_def)
qed

lemma validate_world_args_rejects:
  "bad_name (match_info_event req) \<or> bad_name (match_info_user req) \<Longrightarrow>
   validate_world_args func req st = (Response 415 None, st)"
  by (auto simp: validate_world_args_def validate_name_bad split: sum.splits error.splits)

lemma validate_name_folds:
  "spec_name_ok name \<Longrightarrow>
   validate_name name = Inr (lower name) \<and> list_all (\<lambda>c. \<not> is_upper c) (lower name)"
  by (cases "name = []") (simp_all add: spec_name_ok_def validate_name_eq re_match_alnum lower_no_upper)

lemma validate_name_abcd_newline: "validate_name ''abcd\<newline>'' = Inr ''abcd\<newline>''"
  by code_simp

lemma newline_create_run:
  "state_of (after_start env_up ''abcd\<newline>'' ''alice'' test_daemon) ''abcd\<newline>'' ''alice'' = Running"
  "get_user_config ''abcd\<newline>'' ''alice'' (after_start env_up ''abcd\<newline>'' ''alice'' test_daemon)
     = Some peer_conf"
  "dispatched test_daemon (after_start env_up ''abcd\<newline>'' ''alice'' test_daemon)
     = [(''abcd\<newline>'', ''alice'', sig_create), (''abcd\<newline>'', ''alice'', sig_down),
        (''abcd\<newline>'', ''alice'', sig_start), (''abcd\<newline>'', ''alice'', sig_up)]"
  by (simp_all add: run_simps get_user_config_def dispatched_def new_records_def)

text \<open>
  Claim C3 asks that a path parameter with a character other than a letter or digit is
  answered with 415 before any signal reaches the FSM. The code does not do so for a name
  that ends in a newline: the event name made of \<^verbatim>\<open>abcd\<close> and a newline is not a name by the
  rule of letters and digits, yet \<^verbatim>\<open>validate_name\<close> returns it, the create handler runs
  with it, the signals \<open>create\<close>, \<open>down\<close>, \<open>start\<close> and \<open>up\<close> go through the FSM for it, and the
  answer is 200.
\<close>

theorem validate_world_args_accepts_newline:
  "\<not> spec_name_ok ''abcd\<newline>''
   \<and> validate_name ''abcd\<newline>'' = Inr ''abcd\<newline>''
   \<and> fst (validate_world_args (world_create env_up)
          \<lparr>match_info_event = ''abcd\<newline>'', match_info_user = ''alice''\<rparr> test_daemon)
       = Response 200 (Some peer_conf)
   \<and> dispatched test_daemon
        (snd (validate_world_args (world_create env_up)
          \<lparr>match_info_event = ''abcd\<newline>'', match_info_user = ''alice''\<rparr> test_daemon))
       = [(''abcd\<newline>'', ''alice'', sig_create), (''abcd\<newline>'', ''alice'', sig_down),
          (''abcd\<newline>'', ''alice'', sig_start), (''abcd\<newline>'', ''alice'', sig_up)]
   \<and> state_of
        (snd (validate_world_args (world_create env_up)
          \<lparr>match_info_event = ''abcd\<newline>'', match_info_user = ''alice''\<rparr> test_daemon))
        ''abcd\<newline>'' ''alice'' = Running"
proof -
  have "\<not> alnum CHR ''\<newline>''"
    using not_alnum_newline by (simp add: newline_def)
  then have "\<not> spec_name_ok ''abcd\<newline>''"
    by (simp add: spec_name_ok_def)
  moreover have "peer_conf \<noteq> []"
    by (simp add: peer_conf_def)
  ultimately show ?thesis
    by (simp add: validate_world_args_def validate_name_abcd_newline validate_name_demo_alice
          world_create_eq newline_create_run)
qed

lemma re_match_abcd_newline: "re_match USER_ALLOWED_REGEX ''abcd\<newline>''"
  by code_simp

theorem validate_world_args_accepts_newline_witness:
  "re_match USER_ALLOWED_REGEX ''abcd\<newline>''
   \<and> \<not> length ''abcd\<newline>'' > USER_MAX_LEN \<and> \<not> length ''abcd\<newline>'' < USER_MIN_LEN
   \<and> validate_name ''abcd\<newline>'' = Inr ''abcd\<newline>''
   \<and> fst (validate_world_args (world_create env_up)
          \<lparr>match_info_event = ''abcd\<newline>'', match_info_user = ''alice''\<rparr> test_daemon)
       = Response 200 (Some peer_conf)"
  using validate_world_args_accepts_newline re_match_abcd_newline
  by (simp add: USER_MAX_LEN_def USER_MIN_LEN_def)

section \<open>Properties of the port allocation service\<close>

lemma digits_is_digit: "list_all is_digit (digits n) \<and> digits n \<noteq> []"
proof (induction n rule: digits.induct)
  case (1 n)
  have d: "\<And>k::nat. k < 10 \<Longrightarrow> is_digit (char_of (48 + k))"
    by (simp add: is_digit_def in_range_def)
  show ?case
  proof (cases "n < 10")
    case True
    then show ?thesis
      by (subst digits.simps, subst (2) digits.simps) (simp add: d)
  next
    case False
    then show ?thesis
      using 1 by (subst digits.simps, subst (2) digits.simps) (simp add: d)
  qed
qed

lemma bind_loop_finds:
  assumes "\<forall>i<k. assigned (n + i) \<in> blacklist"
    and "assigned (n + k) \<notin> blacklist"
    and "port \<in> blacklist"
  shows "bind_loop assigned blacklist n port = Some (assigned (n + k))"
  using assms
proof (induction k arbitrary: n port)
  case 0
  then show ?case
    by (subst bind_loop.simps, subst bind_loop.simps) simp
next
  case (Suc k)
  have "assigned n \<in> blacklist"
    using Suc.prems(1) by force
  moreover have "\<forall>i<k. assigned (Suc n + i) \<in> blacklist"
    using Suc.prems(1) by (metis Suc_less_eq add_Suc_shift)
  moreover have "assigned (Suc n + k) \<notin> blacklist"
    using Suc.prems(2) by simp
  ultimately have "bind_loop assigned blacklist (Suc n) (assigned n) = Some (assigned (Suc n + k))"
    by (intro Suc.IH)
  then show ?case
    using Suc.prems(3) by (subst bind_loop.simps) simp
qed

text \<open>
  Claim C8. For a request whose blacklist values are the integers \<open>query\<close>: if the kernel
  only hands out positive ports and at some bind hands out a port outside the blacklist,
  the handler's loop ends, and the answer is status 200 whose text is the decimal writing
  (digits only) of a positive integer that is not in the blacklist.
\<close>

theorem handle_returns_free_port:
  assumes "\<forall>n. 0 < assigned n"
    and "\<exists>n. assigned n \<notin> set query"
  shows "\<exists>port. handle assigned query = Some (Response 200 (Some (str_int port)))
           \<and> 0 < port \<and> port \<notin> set query
           \<and> list_all is_digit (str_int port) \<and> str_int port \<noteq> []"
proof -
  let ?B = "insert (- 1) (set query)"
  define k where "k = (LEAST n. assigned n \<notin> set query)"
  have out: "assigned k \<notin> set query"
    unfolding k_def using assms(2) by (rule LeastI_ex)
  have before: "\<forall>i<k. assigned i \<in> set query"
    unfolding k_def using not_less_Least by blast
  have pos: "0 < assigned k"
    using assms(1) by simp
  have "bind_loop assigned ?B 0 (- 1) = Some (assigned (0 + k))"
    using out before pos by (intro bind_loop_finds) auto
  then have "handle assigned query = Some (Response 200 (Some (str_int (assigned k))))"
    by (simp add: handle_def Let_def)
  moreover have "list_all is_digit (str_int (assigned k)) \<and> str_int (assigned k) \<noteq> []"
    using pos digits_is_digit [of "nat (assigned k)"] by (simp add: str_int_def)
  ultimately show ?thesis
    using out pos by blast
qed

lemma handle_counting: "handle counting_kernel [1, 2, 3] = Some (Response 200 (Some ''4''))"
proof -
  have "bind_loop counting_kernel (insert (- 1) (set [1, 2, 3])) 0 (- 1) = Some (counting_kernel (0 + 3))"
    by (rule bind_loop_finds) (auto simp: counting_kernel_def less_Suc_eq numeral_3_eq_3)
  moreover have "str_int 4 = ''4''"
    by code_simp
  ultimately show ?thesis
    by (simp add: handle_def Let_def counting_kernel_def)
qed

theorem handle_returns_free_port_witness:
  "(\<forall>n. 0 < counting_kernel n) \<and> (\<exists>n. counting_kernel n \<notin> set [1, 2, 3])
   \<and> handle counting_kernel [1, 2, 3] = Some (Response 200 (Some ''4''))
   \<and> (\<exists>port. handle counting_kernel [1, 2, 3] = Some (Response 200 (Some (str_int port)))
         \<and> 0 < port \<and> port \<notin> set [1, 2, 3])"
proof -
  have p: "\<forall>n. 0 < counting_kernel n"
    by (simp add: counting_kernel_def)
  have q: "\<exists>n. counting_kernel n \<notin> set [1, 2, 3]"
    by (rule exI [of _ 3]) (simp add: counting_kernel_def)
  from handle_returns_free_port [OF p q] p q handle_counting show ?thesis
    by blast
qed

end
